theory Spec2Isabelle
  imports Complex_Main "HOL-Library.Word" "HOL-Library.AList"
begin

section \<open>Scalar resources (resmgr/scalar/resources.go)\<close>

text \<open>
  A value of Go's \<open>float64\<close> is modelled by the real number it stands for; NaN
  and the infinities are outside the model. Comparisons and the subtraction of
  \<open>Subtract\<close> and \<open>lessThanOrEqual\<close> are taken on these reals. The addition of
  \<open>Add\<close> rounds its result to the nearest \<open>float64\<close> (\<open>round64\<close> below), as the
  sums of an allocation are kept in \<open>float64\<close> and compared with \<open>==\<close>.
\<close>

type_synonym float64 = real

text \<open>Modelled from the spec: \<open>util.ResourceEpsilon\<close> is declared outside the
  sources at hand; the specification gives the epsilon as 1e-9.\<close>

definition ResourceEpsilon :: float64 where
  "ResourceEpsilon = 1 / 10 ^ 9"













text \<open>One dimension of \<open>Resources.Subtract\<close>; the source repeats this block for
  CPU, GPU, MEMORY and DISK.\<close>

definition subtract1 :: "float64 \<Rightarrow> float64 \<Rightarrow> float64" where
  "subtract1 a b =
     (if a < b then 0
      else (let d = a - b in if d < ResourceEpsilon then 0 else d))"


subsection \<open>Allocations\<close>





text \<open>
  The task and its resource configuration are generated protobuf types that are not
  among the sources; the fields are those the code reads. A nil \<open>Resource\<close>
  pointer is \<open>None\<close>: the generated getters return 0 on it.
\<close>

datatype TaskType = UNKNOWN | BATCH | STATELESS | DAEMON | STATEFUL | CONTROLLER















section \<open>Recovery batches (common/recovery/recovery.go)\<close>

type_synonym uint32 = "32 word"

record TasksBatch =
  From :: uint32
  To :: uint32

definition requeueTaskBatchSize :: uint32 where
  "requeueTaskBatchSize = 1000"

text \<open>\<open>util.Min\<close> is declared outside the sources at hand; it is the minimum of
  two unsigned 32-bit numbers.\<close>

definition util_Min :: "uint32 \<Rightarrow> uint32 \<Rightarrow> uint32" where
  "util_Min a b = (if a < b then a else b)"

text \<open>The two fields of the job configuration that \<open>createTaskBatches\<close> reads:
  \<open>config.InstanceCount\<close> and \<open>config.GetSLA().GetMinimumRunningInstances()\<close>.\<close>

record JobConfig =
  InstanceCount :: uint32
  MinimumRunningInstances :: uint32

text \<open>
  The loop \<open>for i := initialSingleInstance; i <= rangevar; i++\<close> on unsigned
  32-bit counters. It would not end for \<open>rangevar = 2^32 - 1\<close>, so the model is a
  partial function: \<open>None\<close> means the loop does not return.
\<close>

partial_function (option) taskBatchLoop ::
  "uint32 \<Rightarrow> uint32 \<Rightarrow> uint32 \<Rightarrow> TasksBatch list \<Rightarrow> TasksBatch list option"
where
  "taskBatchLoop i rangevar numSingleInstances batches =
     (if i \<le> rangevar then
        taskBatchLoop (i + 1) rangevar numSingleInstances
          (batches @
             [\<lparr>From = i * requeueTaskBatchSize,
               To = util_Min ((i + 1) * requeueTaskBatchSize) numSingleInstances\<rparr>])
      else Some batches)"

declare taskBatchLoop.simps [code]

definition createTaskBatches :: "JobConfig \<Rightarrow> TasksBatch list option" where
  "createTaskBatches config =
     (let minInstances = MinimumRunningInstances config;
          (batches, numSingleInstances, initialSingleInstance) =
            (if minInstances > 1
             then ([\<lparr>From = 0, To = minInstances\<rparr>],
                   InstanceCount config - minInstances,
                   0 + minInstances)
             else ([], InstanceCount config, 0))
      in if numSingleInstances > 0
         then taskBatchLoop initialSingleInstance
                (numSingleInstances div requeueTaskBatchSize) numSingleInstances batches
         else Some batches)"

text \<open>The instance indices of a batch \<open>[From, To)\<close>, and of a list of batches in
  order.\<close>

definition batch_indices :: "TasksBatch \<Rightarrow> nat list" where
  "batch_indices b = [unat (From b) ..< unat (To b)]"

definition covered :: "TasksBatch list \<Rightarrow> nat list" where
  "covered bs = concat (map batch_indices bs)"

text \<open>The batch the loop appends in round \<open>k\<close>, when no product wraps
  around.\<close>

definition nth_batch :: "uint32 \<Rightarrow> nat \<Rightarrow> TasksBatch" where
  "nth_batch n k =
     \<lparr>From = of_nat (k * 1000), To = util_Min (of_nat (Suc k * 1000)) n\<rparr>"

subsection \<open>Recovery of a batch of jobs\<close>

text \<open>An error value carries a YARPC code and a message.\<close>

datatype yarpc_code =
  CodeNotFound | CodeAlreadyExists | CodeInvalidArgument | CodeResourceExhausted |
  CodeUnavailable | CodeDeadlineExceeded | CodeInternal

datatype error = YarpcError yarpc_code string

text \<open>
  The job store is an interface; the two reads that \<open>recoverJobsBatch\<close> makes are
  fields of the record. A job identifier is its string value. The runtime has the
  three fields the code reads; \<open>UpdateID\<close> is \<open>GetUpdateID().GetValue()\<close>, the
  empty string when there is no update.
\<close>

record 'st RuntimeInfo =
  State :: 'st
  GoalState :: 'st
  UpdateID :: string

record ('st, 'cfg) JobStore =
  GetJobRuntime :: "string \<Rightarrow> error + 'st RuntimeInfo"
  GetJobConfig :: "string \<Rightarrow> error + 'cfg"

text \<open>
  \<open>recoverJobsBatch\<close> walks the jobs of the batch in order. The arguments
  \<open>IsPelotonJobStateTerminal\<close> (of package \<open>util\<close>, not among the sources) and
  \<open>recoverJob\<close> (which fans the task batches of one job out to goroutines and
  returns its error or nil) are parameters. The result is the list of jobs that
  were recovered, in order, and the error sent on \<open>errChan\<close> if one was sent;
  after sending the function returns.
\<close>

fun recoverJobsBatch ::
  "('st \<Rightarrow> bool) \<Rightarrow> (string \<Rightarrow> 'cfg \<Rightarrow> 'st RuntimeInfo \<Rightarrow> error option) \<Rightarrow>
   ('st, 'cfg) JobStore \<Rightarrow> string list \<Rightarrow> string list \<times> error option"
where
  "recoverJobsBatch IsPelotonJobStateTerminal recoverJob jobStore [] = ([], None)"
| "recoverJobsBatch IsPelotonJobStateTerminal recoverJob jobStore (jobID # jobs) =
     (case GetJobRuntime jobStore jobID of
        Inl err \<Rightarrow> recoverJobsBatch IsPelotonJobStateTerminal recoverJob jobStore jobs
      | Inr jobRuntime \<Rightarrow>
          if IsPelotonJobStateTerminal (State jobRuntime) \<and>
             IsPelotonJobStateTerminal (GoalState jobRuntime) \<and>
             length (UpdateID jobRuntime) = 0
          then recoverJobsBatch IsPelotonJobStateTerminal recoverJob jobStore jobs
          else
            (case GetJobConfig jobStore jobID of
               Inl err \<Rightarrow> ([], Some err)
             | Inr jobConfig \<Rightarrow>
                 (case recoverJob jobID jobConfig jobRuntime of
                    Some err \<Rightarrow> ([], Some err)
                  | None \<Rightarrow>
                      (let (recovered, sent) =
                             recoverJobsBatch IsPelotonJobStateTerminal recoverJob jobStore jobs
                       in (jobID # recovered, sent)))))"

text \<open>Job states, for concrete stores: the terminal ones are a parameter of the
  function above, here the three final states.\<close>

datatype JobState = INITIALIZED | PENDING | RUNNING | SUCCEEDED | FAILED | KILLED

definition terminal_state :: "JobState \<Rightarrow> bool" where
  "terminal_state s \<longleftrightarrow> s = SUCCEEDED \<or> s = FAILED \<or> s = KILLED"

text \<open>A store with three jobs: the runtime read of \<open>j1\<close> fails with the given
  error, \<open>j2\<close> and \<open>j3\<close> are running; the configuration read of \<open>j3\<close> fails
  with \<open>NotFound\<close>, that of the others gives configuration 0.\<close>

definition store3 :: "error \<Rightarrow> (JobState, nat) JobStore" where
  "store3 e =
     \<lparr>GetJobRuntime =
        (\<lambda>j. if j = ''j1'' then Inl e
             else Inr \<lparr>State = RUNNING, GoalState = SUCCEEDED, UpdateID = []\<rparr>),
      GetJobConfig =
        (\<lambda>j. if j = ''j3'' then Inl (YarpcError CodeNotFound ''no config'') else Inr 0)\<rparr>"

section \<open>Lifecycle manager (v1)\<close>

text \<open>
  The counters of \<open>Metrics\<close> that \<open>Kill\<close> increments. The embedded
  \<open>lockState\<close> is declared outside the sources at hand; of it the code reads
  \<open>hasKillLock()\<close>, here the field \<open>killLock\<close>. \<open>killPodsRequests\<close> is the
  log of the \<open>KillPods\<close> requests sent to the host manager, each the list of its
  pod identifiers.
\<close>

record Metrics =
  metric_Kill :: nat
  metric_KillFail :: nat
  metric_KillRateLimit :: nat

record lockState =
  killLock :: bool

definition hasKillLock :: "lockState \<Rightarrow> bool" where
  "hasKillLock l = killLock l"

record v1LifecycleMgr =
  lock_state :: lockState
  metrics :: Metrics
  killPodsRequests :: "string list list"

text \<open>
  \<open>Kill\<close>. The rate limiter is \<open>None\<close> for a nil pointer and \<open>Some b\<close> for a
  limiter whose \<open>Allow()\<close> answers \<open>b\<close>; \<open>hostmgrKillPods\<close> is the answer of
  the host manager to the request (its error or nil). The result is the returned
  error or nil and the manager after the call.
\<close>

definition Kill ::
  "(string list \<Rightarrow> error option) \<Rightarrow> v1LifecycleMgr \<Rightarrow> string \<Rightarrow> string \<Rightarrow> bool option \<Rightarrow>
   error option \<times> v1LifecycleMgr"
where
  "Kill hostmgrKillPods l podID hostToReserve rateLimiter =
     (if hasKillLock (lock_state l) then
        (Some (YarpcError CodeInternal ''kill op is locked''),
         l\<lparr>metrics := (metrics l)\<lparr>metric_KillRateLimit := metric_KillRateLimit (metrics l) + 1\<rparr>\<rparr>)
      else if (case rateLimiter of None \<Rightarrow> False | Some allow \<Rightarrow> \<not> allow) then
        (Some (YarpcError CodeResourceExhausted ''rate limit reached for kill''),
         l\<lparr>metrics := (metrics l)\<lparr>metric_KillFail := metric_KillFail (metrics l) + 1\<rparr>\<rparr>)
      else
        (let l = l\<lparr>killPodsRequests := killPodsRequests l @ [[podID]]\<rparr> in
         case hostmgrKillPods [podID] of
           Some err \<Rightarrow>
             (Some err,
              l\<lparr>metrics := (metrics l)\<lparr>metric_KillFail := metric_KillFail (metrics l) + 1\<rparr>\<rparr>)
         | None \<Rightarrow>
             (None, l\<lparr>metrics := (metrics l)\<lparr>metric_Kill := metric_Kill (metrics l) + 1\<rparr>\<rparr>)))"

section \<open>Resource pool tree (package respool)\<close>

subsection \<open>Paths\<close>

text \<open>Modelled from the spec: \<open>ResourcePoolPathDelimiter\<close> is declared outside the
  sources at hand; the specification gives the delimiter as \<open>/\<close>.\<close>

definition ResourcePoolPathDelimiter :: string where
  "ResourcePoolPathDelimiter = ''/''"

text \<open>Go's \<open>strings.TrimSuffix\<close>, \<open>strings.TrimPrefix\<close> and \<open>strings.Split\<close>
  (for a separator that is not empty the pieces between its occurrences, found from
  the left; for the empty separator the characters).\<close>

definition TrimSuffix :: "string \<Rightarrow> string \<Rightarrow> string" where
  "TrimSuffix s suffix =
     (if length suffix \<le> length s \<and> drop (length s - length suffix) s = suffix
      then take (length s - length suffix) s else s)"

definition TrimPrefix :: "string \<Rightarrow> string \<Rightarrow> string" where
  "TrimPrefix s prefix =
     (if take (length prefix) s = prefix then drop (length prefix) s else s)"

function Split_sep :: "string \<Rightarrow> string \<Rightarrow> string list" where
  "Split_sep sep [] = [[]]"
| "Split_sep sep (c # cs) =
     (if sep \<noteq> [] \<and> take (length sep) (c # cs) = sep
      then [] # Split_sep sep (drop (length sep) (c # cs))
      else (case Split_sep sep cs of
              [] \<Rightarrow> [[c]]
            | w # ws \<Rightarrow> (c # w) # ws))"
  by pat_completeness auto
termination
  by (relation "measure (\<lambda>(sep, s). length s)") (auto simp: neq_Nil_conv)

definition Split :: "string \<Rightarrow> string \<Rightarrow> string list" where
  "Split s sep = (if sep = [] then map (\<lambda>c. [c]) s else Split_sep sep s)"

text \<open>\<open>tree.trimPath\<close>.\<close>

definition trimPath :: "string \<Rightarrow> string" where
  "trimPath path =
     TrimPrefix (TrimSuffix path ResourcePoolPathDelimiter) ResourcePoolPathDelimiter"

subsection \<open>Nodes and the tree\<close>

text \<open>
  The configuration is a generated protobuf type that is not among the sources. The
  tree reads \<open>Name\<close> and \<open>Parent\<close> (a pointer to an identifier: \<open>None\<close> is
  nil); \<open>Policy\<close> is set by \<open>initTree\<close>; \<open>Description\<close> stands for the fields
  the tree never looks at.
\<close>

datatype SchedulingPolicy = UNKNOWN_POLICY | PriorityFIFO

record ResourcePoolConfig =
  Name :: string
  Parent :: "string option"
  Policy :: SchedulingPolicy
  Description :: string

text \<open>
  Nodes are Go objects that the tree, the parent pointers and the children lists
  share, so the model has a store: an address is a pointer to a node, \<open>heap\<close> maps
  every address to the node it holds and \<open>next_addr\<close> is the first address that
  is not allocated yet.

  Modelled from the spec: the node type \<open>resPool\<close> and its constructor and
  accessors (\<open>NewRespool\<close>, \<open>ID\<close>, \<open>Name\<close>, \<open>Parent\<close>, \<open>Children\<close>,
  \<open>SetChildren\<close>, \<open>SetResourcePoolConfig\<close>, \<open>IsLeaf\<close>) are not among the
  sources. A node has the fields of the specification's data model that the tree
  touches: identity, configuration, parent, ordered children, and the demand queue
  of gangs (a gang is a number here). The name of a node is the name in its
  configuration; a leaf is a node without children.
\<close>

type_synonym addr = nat

record resPool =
  ID :: string
  parent :: "addr option"
  children :: "addr list"
  poolConfig :: ResourcePoolConfig
  demand_queue :: "nat list"

definition respool_Name :: "resPool \<Rightarrow> string" where
  "respool_Name n = Name (poolConfig n)"

definition IsLeaf :: "resPool \<Rightarrow> bool" where
  "IsLeaf n \<longleftrightarrow> children n = []"

definition SetResourcePoolConfig :: "resPool \<Rightarrow> ResourcePoolConfig \<Rightarrow> resPool" where
  "SetResourcePoolConfig n config = n\<lparr>poolConfig := config\<rparr>"

text \<open>
  Errors of the tree. \<open>ErrWrap\<close> is \<open>errors.Wrap\<close> with its message. A nil
  pointer dereference panics; the panic is the result \<open>NilPointerPanic\<close>. Every
  error below is returned before the tree is changed, so a result \<open>Inl e\<close> stands
  for: error \<open>e\<close>, tree as before.
\<close>

datatype tree_error =
  ErrNotFound string
| ErrPathNotFound "string list"
| ErrNotInitialized
| ErrParentNil
| ErrNewRespool string
| ErrWrap string tree_error
| NilPointerPanic

text \<open>\<open>NewRespool\<close> can refuse a configuration; which ones it refuses is the
  parameter \<open>accepts\<close>.\<close>

definition NewRespool ::
  "(ResourcePoolConfig \<Rightarrow> bool) \<Rightarrow> string \<Rightarrow> addr option \<Rightarrow> ResourcePoolConfig \<Rightarrow>
   tree_error + resPool"
where
  "NewRespool accepts ident par config =
     (if accepts config
      then Inr \<lparr>ID = ident, parent = par, children = [], poolConfig = config,
                demand_queue = []\<rparr>
      else Inl (ErrNewRespool ident))"

text \<open>
  The tree: the store, the root pointer, the map \<open>resPools\<close> from identifier to
  node (an association list, read with \<open>map_of\<close>) and the one-place channel
  \<open>updatedChan\<close> (\<open>True\<close> when it holds an event).
\<close>

record tree =
  heap :: "addr \<Rightarrow> resPool"
  next_addr :: addr
  root :: "addr option"
  resPools :: "(string \<times> addr) list"
  updatedChan :: bool

definition lookupResPool :: "tree \<Rightarrow> string \<Rightarrow> tree_error + addr" where
  "lookupResPool t ident =
     (case map_of (resPools t) ident of
        Some val \<Rightarrow> Inr val
      | None \<Rightarrow> Inl (ErrNotFound ident))"

definition Get :: "tree \<Rightarrow> string \<Rightarrow> tree_error + addr" where
  "Get t ident = lookupResPool t ident"

text \<open>\<open>GetAllNodes\<close> ranges over a Go map, whose order is not fixed; the model lists
  the nodes in the order of the association list.\<close>

definition GetAllNodes :: "tree \<Rightarrow> bool \<Rightarrow> addr list" where
  "GetAllNodes t leafOnly =
     filter (\<lambda>n. \<not> leafOnly \<or> IsLeaf (heap t n)) (map snd (resPools t))"

fun walkTree :: "(addr \<Rightarrow> resPool) \<Rightarrow> addr \<Rightarrow> string list \<Rightarrow> tree_error + addr" where
  "walkTree h node [] = Inr node"
| "walkTree h node (n # nodes) =
     (case find (\<lambda>child. respool_Name (h child) = n) (children (h node)) of
        Some child \<Rightarrow> walkTree h child nodes
      | None \<Rightarrow> Inl (ErrPathNotFound (n # nodes)))"

definition GetByPath :: "tree \<Rightarrow> string \<Rightarrow> tree_error + addr" where
  "GetByPath t path =
     (case root t of
        None \<Rightarrow> Inl ErrNotInitialized
      | Some r \<Rightarrow>
          if path = ResourcePoolPathDelimiter then Inr r
          else
            (case walkTree (heap t) r (Split (trimPath path) ResourcePoolPathDelimiter) of
               Inl err \<Rightarrow> Inl (ErrWrap (''unable to find resource pool with path:'' @ path) err)
             | Inr resPool \<Rightarrow> Inr resPool))"

definition Upsert ::
  "(ResourcePoolConfig \<Rightarrow> bool) \<Rightarrow> tree \<Rightarrow> string \<Rightarrow> ResourcePoolConfig \<Rightarrow> tree_error + tree"
where
  "Upsert accepts t ident resPoolConfig =
     (case Parent resPoolConfig of
        None \<Rightarrow> Inl NilPointerPanic
      | Some parentID \<Rightarrow>
          (case lookupResPool t parentID of
             Inl err \<Rightarrow> Inl (ErrWrap ''parent does not exists'' err)
           | Inr par \<Rightarrow>
               (case lookupResPool t ident of
                  Inr resourcePool \<Rightarrow>
                    Inr (t\<lparr>heap := (heap t)
                              (resourcePool :=
                                 SetResourcePoolConfig (heap t resourcePool) resPoolConfig),
                           resPools := AList.update ident resourcePool (resPools t),
                           updatedChan := True\<rparr>)
                | Inl _ \<Rightarrow>
                    (case NewRespool accepts ident (Some par) resPoolConfig of
                       Inl err \<Rightarrow>
                         Inl (ErrWrap (''failed to insert resource pool: '' @ ident) err)
                     | Inr node \<Rightarrow>
                         (let resourcePool = next_addr t;
                              h = (heap t)(resourcePool := node);
                              h = h(par := (h par)\<lparr>children := children (h par) @ [resourcePool]\<rparr>)
                          in Inr (t\<lparr>heap := h,
                                    next_addr := Suc resourcePool,
                                    resPools := AList.update ident resourcePool (resPools t),
                                    updatedChan := True\<rparr>))))))"

definition Delete :: "tree \<Rightarrow> string \<Rightarrow> tree_error + tree" where
  "Delete t respoolID =
     (case lookupResPool t respoolID of
        Inl err \<Rightarrow> Inl err
      | Inr resPool \<Rightarrow>
          (case parent (heap t resPool) of
             None \<Rightarrow> Inl ErrParentNil
           | Some par \<Rightarrow>
               (let newChildren =
                      filter (\<lambda>child. ID (heap t child) \<noteq> respoolID) (children (heap t par));
                    h = (heap t)(par := (heap t par)\<lparr>children := newChildren\<rparr>);
                    pools = fold (\<lambda>child pools. AList.delete (ID (h child)) pools)
                              (children (h resPool)) (resPools t);
                    pools = AList.delete respoolID pools
                in Inr (t\<lparr>heap := h, resPools := pools\<rparr>))))"

text \<open>
  The tree that \<open>initTree\<close> builds when the store holds no resource pool: the
  root alone, with the configuration that \<open>initTree\<close> gives it.
\<close>

definition RootResPoolID :: string where
  "RootResPoolID = ''root''"

definition root_node :: resPool where
  "root_node =
     \<lparr>ID = RootResPoolID, parent = None, children = [],
      poolConfig = \<lparr>Name = RootResPoolID, Parent = None, Policy = PriorityFIFO,
                    Description = []\<rparr>,
      demand_queue = []\<rparr>"

definition root_only :: tree where
  "root_only =
     \<lparr>heap = (\<lambda>_. root_node), next_addr = 1, root = Some 0,
      resPools = [(RootResPoolID, 0)], updatedChan = False\<rparr>"

subsection \<open>Paths of nodes and well-formed stores\<close>

text \<open>A name that can be a segment of a path: not empty and without the
  delimiter.\<close>

definition valid_name :: "string \<Rightarrow> bool" where
  "valid_name s \<longleftrightarrow> s \<noteq> [] \<and> CHR ''/'' \<notin> set s"

text \<open>The path of the node reached from the root through children with the given
  names: \<open>/\<close> for the root itself, \<open>/n1/n2/.../nk\<close> otherwise.\<close>

fun join_path :: "string list \<Rightarrow> string" where
  "join_path [] = []"
| "join_path [n] = n"
| "join_path (n # m # names) = n @ ResourcePoolPathDelimiter @ join_path (m # names)"

definition path_of :: "string list \<Rightarrow> string" where
  "path_of names =
     (if names = [] then ResourcePoolPathDelimiter
      else ResourcePoolPathDelimiter @ join_path names)"

text \<open>\<open>reaches h r names n\<close>: from \<open>r\<close>, some chain of children whose names are
  \<open>names\<close>, in this order, ends in \<open>n\<close>.\<close>

fun reaches :: "(addr \<Rightarrow> resPool) \<Rightarrow> addr \<Rightarrow> string list \<Rightarrow> addr \<Rightarrow> bool" where
  "reaches h r [] n \<longleftrightarrow> n = r"
| "reaches h r (s # names) n \<longleftrightarrow>
     (\<exists>c\<in>set (children (h r)). respool_Name (h c) = s \<and> reaches h c names n)"

text \<open>Every pointer that the tree holds points to an allocated node. The tree of
  \<open>initTree\<close> has this property and \<open>Upsert\<close> and \<open>Delete\<close> keep it.\<close>

definition closed_tree :: "tree \<Rightarrow> bool" where
  "closed_tree t \<longleftrightarrow>
     list_all (\<lambda>(k, n). n < next_addr t) (resPools t) \<and>
     (case root t of None \<Rightarrow> True | Some r \<Rightarrow> r < next_addr t) \<and>
     list_all (\<lambda>n. list_all (\<lambda>c. c < next_addr t) (children (heap t n))) [0 ..< next_addr t]"

subsection \<open>Example trees\<close>

text \<open>Trees reached from \<open>root_only\<close> by \<open>Upsert\<close>, with a \<open>NewRespool\<close> that
  accepts every configuration: \<open>root \<rightarrow> a\<close>, \<open>root \<rightarrow> a \<rightarrow> b\<close> and
  \<open>root \<rightarrow> a \<rightarrow> b \<rightarrow> c\<close>. The nodes \<open>root\<close>, \<open>a\<close>, \<open>b\<close>, \<open>c\<close> are at the
  addresses 0, 1, 2, 3.\<close>

definition pool_config :: "string \<Rightarrow> string \<Rightarrow> string \<Rightarrow> ResourcePoolConfig" where
  "pool_config name parentID description =
     \<lparr>Name = name, Parent = Some parentID, Policy = PriorityFIFO, Description = description\<rparr>"

definition accept_all :: "ResourcePoolConfig \<Rightarrow> bool" where
  "accept_all config = True"

definition tree_a :: tree where
  "tree_a = projr (Upsert accept_all root_only ''a'' (pool_config ''a'' ''root'' []))"

definition tree_ab :: tree where
  "tree_ab = projr (Upsert accept_all tree_a ''b'' (pool_config ''b'' ''a'' []))"

definition tree_abc :: tree where
  "tree_abc = projr (Upsert accept_all tree_ab ''c'' (pool_config ''c'' ''b'' []))"

text \<open>The tree \<open>root \<rightarrow> a \<rightarrow> b\<close> after one gang, number 7, was queued at the leaf
  \<open>b\<close>.\<close>

definition tree_ab_queued :: tree where
  "tree_ab_queued =
     tree_ab\<lparr>heap := (heap tree_ab)(2 := (heap tree_ab 2)\<lparr>demand_queue := [7]\<rparr>)\<rparr>"

section \<open>Properties of the scalar resources\<close>


lemma subtract1_nonneg: "0 \<le> subtract1 a b"
  by (auto simp: subtract1_def ResourceEpsilon_def Let_def)






subsection \<open>Rounding\<close>
















subsection \<open>Allocation invariant\<close>














section \<open>Properties of the recovery batches\<close>

lemma unat_succ_le:
  fixes i r :: uint32
  assumes "i \<le> r" "unat r < 2 ^ 32 - 1"
  shows "unat (i + 1) = Suc (unat i)"
proof -
  have "unat i \<le> unat r" using assms(1) by (simp add: word_le_nat_alt)
  then have "unat i + 1 < 2 ^ 32" using assms(2) by simp
  then show ?thesis
    by (simp add: unat_word_ariths)
qed

lemma taskBatchLoop_returns:
  fixes i r :: uint32
  assumes "unat r < 2 ^ 32 - 1"
  shows "\<exists>bs. taskBatchLoop i r n acc = Some bs"
  using assms
proof (induction "Suc (unat r) - unat i" arbitrary: i acc)
  case 0
  then have "\<not> i \<le> r" by (simp add: word_le_nat_alt)
  then show ?case by (simp add: taskBatchLoop.simps)
next
  case (Suc k)
  show ?case
  proof (cases "i \<le> r")
    case True
    then have "unat (i + 1) = Suc (unat i)" using Suc.prems by (rule unat_succ_le)
    then have "k = Suc (unat r) - unat (i + 1)" using Suc.hyps(2) by simp
    from Suc.hyps(1)[OF this Suc.prems] show ?thesis
      using True by (subst taskBatchLoop.simps) simp
  next
    case False
    then show ?thesis by (simp add: taskBatchLoop.simps)
  qed
qed

lemma rangevar_small:
  fixes x :: uint32
  shows "unat (x div requeueTaskBatchSize) < 2 ^ 32 - 1"
proof -
  have "unat (x div requeueTaskBatchSize) = unat x div 1000"
    by (simp add: requeueTaskBatchSize_def unat_div)
  moreover have "unat x < 2 ^ 32" using unsigned_less[of x] by simp
  ultimately show ?thesis by simp
qed

lemma createTaskBatches_returns: "\<exists>bs. createTaskBatches config = Some bs"
  unfolding createTaskBatches_def Let_def
  by (auto intro!: taskBatchLoop_returns rangevar_small)

lemma taskBatchLoop_value:
  fixes i r :: uint32
  assumes "unat r < 2 ^ 32 - 1" "unat i \<le> Suc (unat r)"
  shows "taskBatchLoop i r n acc = Some (acc @ map (nth_batch n) [unat i ..< Suc (unat r)])"
  using assms
proof (induction "Suc (unat r) - unat i" arbitrary: i acc)
  case 0
  then have "\<not> i \<le> r" by (simp add: word_le_nat_alt)
  moreover have "[unat i ..< Suc (unat r)] = []" using 0 by simp
  ultimately show ?case by (simp add: taskBatchLoop.simps)
next
  case (Suc k)
  then have "unat i \<le> unat r" by arith
  then have le: "i \<le> r" by (simp add: word_le_nat_alt)
  then have s: "unat (i + 1) = Suc (unat i)" using Suc.prems(1) by (rule unat_succ_le)
  then have k: "k = Suc (unat r) - unat (i + 1)" using Suc.hyps(2) by simp
  have b: "unat (i + 1) \<le> Suc (unat r)" using s Suc.hyps(2) by simp
  have u: "[unat i ..< Suc (unat r)] = unat i # [Suc (unat i) ..< Suc (unat r)]"
    using \<open>unat i \<le> unat r\<close> by (simp add: upt_conv_Cons)
  have f: "i * requeueTaskBatchSize = of_nat (unat i * 1000)"
    by (simp add: requeueTaskBatchSize_def)
  have t: "(i + 1) * requeueTaskBatchSize = of_nat (Suc (unat i) * 1000)"
    by (simp add: requeueTaskBatchSize_def)
  show ?case
    by (subst taskBatchLoop.simps)
       (simp only: le if_True Suc.hyps(1)[OF k Suc.prems(1) b] s u f t nth_batch_def
          list.map append_assoc append_Cons append_Nil)
qed

lemma batch_indices_nth:
  fixes n :: uint32
  assumes "Suc k * 1000 < 2 ^ 32"
  shows "batch_indices (nth_batch n k) = [k * 1000 ..< min (Suc k * 1000) (unat n)]"
proof -
  have "k * 1000 < 2 ^ LENGTH(32)" "Suc k * 1000 < 2 ^ LENGTH(32)"
    using assms by simp_all
  then have a: "unat (of_nat (k * 1000) :: uint32) = k * 1000"
    and b: "unat (of_nat (Suc k * 1000) :: uint32) = Suc k * 1000"
    by (simp_all only: unat_of_nat mod_less)
  have "unat (util_Min (of_nat (Suc k * 1000)) n) = min (Suc k * 1000) (unat n)"
    unfolding util_Min_def using b by (auto simp: word_less_nat_alt)
  then show ?thesis using a by (simp add: batch_indices_def nth_batch_def)
qed

lemma upt_join: "i \<le> j \<Longrightarrow> j \<le> k \<Longrightarrow> [i ..< j] @ [j ..< k] = [i ..< (k :: nat)]"
  using upt_add_eq_append[of i j "k - j"] by simp

lemma covered_prefix:
  fixes n :: uint32
  assumes "m \<le> Suc (unat n div 1000)" "Suc (unat n div 1000) * 1000 < 2 ^ 32"
  shows "covered (map (nth_batch n) [0 ..< m]) = [0 ..< min (m * 1000) (unat n)]"
  using assms(1)
proof (induction m)
  case 0
  show ?case by (simp add: covered_def)
next
  case (Suc m)
  then have m: "m \<le> unat n div 1000" by simp
  then have le: "m * 1000 \<le> unat n" by (simp add: less_eq_div_iff_mult_less_eq)
  have "Suc m * 1000 \<le> Suc (unat n div 1000) * 1000" using m by simp
  then have "Suc m * 1000 < 2 ^ 32" using assms(2) by (rule le_less_trans)
  then have b: "batch_indices (nth_batch n m) = [m * 1000 ..< min (Suc m * 1000) (unat n)]"
    by (rule batch_indices_nth)
  have "covered (map (nth_batch n) [0 ..< Suc m]) =
        covered (map (nth_batch n) [0 ..< m]) @ batch_indices (nth_batch n m)"
    by (simp add: covered_def)
  also have "\<dots> = [0 ..< m * 1000] @ [m * 1000 ..< min (Suc m * 1000) (unat n)]"
    using Suc.IH m le b by (simp add: min_def)
  also have "\<dots> = [0 ..< min (Suc m * 1000) (unat n)]"
    using le by (simp add: upt_join)
  finally show ?case .
qed

lemma batch_size_nth:
  fixes n :: uint32
  assumes "Suc k * 1000 < 2 ^ 32"
  shows "length (batch_indices (nth_batch n k)) \<le> 1000"
proof -
  have "length (batch_indices (nth_batch n k)) = min (Suc k * 1000) (unat n) - k * 1000"
    using batch_indices_nth[OF assms, of n] by simp
  then show ?thesis by arith
qed

text \<open>
  Where the claim C1 does hold: a job without a gang (\<open>minInstances \<le> 1\<close>) and
  with fewer than 4294967000 instances gets batches of at most 1000 instances that
  cover \<open>[0, InstanceCount)\<close> in order, each index once.
\<close>

lemma createTaskBatches_single_instances:
  assumes "MinimumRunningInstances config \<le> 1"
    and "unat (InstanceCount config) < 4294967000"
  shows "\<exists>bs. createTaskBatches config = Some bs \<and>
              covered bs = [0 ..< unat (InstanceCount config)] \<and>
              (\<forall>b\<in>set bs. length (batch_indices b) \<le> 1000)"
proof (cases "InstanceCount config = 0")
  case True
  have "\<not> 1 < MinimumRunningInstances config" using assms(1) by (simp add: not_less)
  then show ?thesis using True
    by (simp add: createTaskBatches_def Let_def covered_def)
next
  case False
  let ?n = "InstanceCount config"
  let ?r = "?n div requeueTaskBatchSize"
  have r: "unat ?r = unat ?n div 1000"
    by (simp add: requeueTaskBatchSize_def unat_div)
  have "unat ?n div 1000 < 4294967"
    using assms(2) by (simp add: div_less_iff_less_mult)
  then have "Suc (unat ?n div 1000) * 1000 < 4294967296" by simp
  then have small: "Suc (unat ?n div 1000) * 1000 < 2 ^ 32" by simp
  have pos: "0 < ?n" using False by (simp add: word_neq_0_conv)
  have "\<not> 1 < MinimumRunningInstances config" using assms(1) by (simp add: not_less)
  then have "createTaskBatches config = taskBatchLoop 0 ?r ?n []"
    using pos by (simp add: createTaskBatches_def Let_def)
  also have "\<dots> = Some ([] @ map (nth_batch ?n) [unat (0 :: uint32) ..< Suc (unat ?r)])"
    by (rule taskBatchLoop_value[OF rangevar_small]) simp
  finally have c: "createTaskBatches config = Some (map (nth_batch ?n) [0 ..< Suc (unat ?n div 1000)])"
    by (simp add: r)
  have "covered (map (nth_batch ?n) [0 ..< Suc (unat ?n div 1000)]) =
        [0 ..< min (Suc (unat ?n div 1000) * 1000) (unat ?n)]"
    using small by (intro covered_prefix) simp_all
  moreover have "unat ?n < Suc (unat ?n div 1000) * 1000"
    using dividend_less_div_times[of 1000 "unat ?n"] by simp
  ultimately have cov: "covered (map (nth_batch ?n) [0 ..< Suc (unat ?n div 1000)]) = [0 ..< unat ?n]"
    by (simp add: min_def)
  have "\<forall>k\<in>set [0 ..< Suc (unat ?n div 1000)]. length (batch_indices (nth_batch ?n k)) \<le> 1000"
  proof
    fix k assume "k \<in> set [0 ..< Suc (unat ?n div 1000)]"
    then have "k \<le> unat ?n div 1000" by auto
    then have "Suc k * 1000 \<le> Suc (unat ?n div 1000) * 1000" by simp
    then have "Suc k * 1000 < 2 ^ 32" using small by (rule le_less_trans)
    then show "length (batch_indices (nth_batch ?n k)) \<le> 1000" by (rule batch_size_nth)
  qed
  then show ?thesis using c cov by simp
qed

text \<open>
  C1. The batches cover every instance index in \<open>[0, N)\<close> exactly once. With a
  gang the loop counter starts at \<open>minInstances\<close> and is then used as a batch
  number: for 10 instances and a gang of 3 the only batch is \<open>[0, 3)\<close>, and the
  instances 3 to 9 are in no batch.
\<close>

theorem createTaskBatches_gang_skips_instances:
  "createTaskBatches \<lparr>InstanceCount = 10, MinimumRunningInstances = 3\<rparr> =
     Some [\<lparr>From = 0, To = 3\<rparr>] \<and>
   covered [\<lparr>From = 0, To = 3\<rparr>] = [0, 1, 2]"
  by (simp add: createTaskBatches_def taskBatchLoop.simps requeueTaskBatchSize_def
      covered_def batch_indices_def upt_rec)

section \<open>Properties of the recovery of a batch of jobs\<close>

text \<open>
  C3, as stated: an error other than \<open>NotFound\<close> on the runtime read aborts the
  recovery of the batch and is handed back. The runtime read of \<open>j1\<close> fails with
  \<open>Unavailable\<close>; the job is skipped like any other whose runtime read fails,
  \<open>j2\<close> is recovered and no error is sent.
\<close>

theorem recoverJobsBatch_runtime_error_counterexample:
  "GetJobRuntime (store3 (YarpcError CodeUnavailable ''timeout'')) ''j1'' =
     Inl (YarpcError CodeUnavailable ''timeout'') \<and>
   recoverJobsBatch terminal_state (\<lambda>jobID jobConfig jobRuntime. None)
     (store3 (YarpcError CodeUnavailable ''timeout'')) [''j1'', ''j2''] = ([''j2''], None)"
  by (simp add: store3_def terminal_state_def)

text \<open>
  C3, amended: a job whose runtime read fails, with \<open>NotFound\<close> or with any other
  error, is skipped and the remaining jobs of the batch are still processed; an error
  of the configuration read of a job that is not skipped as terminal, or of the
  recovery of the job itself, is sent on the error channel and ends the batch: no
  later job of the batch is processed.
\<close>

theorem recoverJobsBatch_errors:
  "(GetJobRuntime jobStore jobID = Inl err \<longrightarrow>
      recoverJobsBatch terminal recoverJob jobStore (jobID # jobs) =
      recoverJobsBatch terminal recoverJob jobStore jobs) \<and>
   (GetJobRuntime jobStore jobID = Inr jobRuntime \<and>
    \<not> (terminal (State jobRuntime) \<and> terminal (GoalState jobRuntime) \<and>
       UpdateID jobRuntime = []) \<and>
    GetJobConfig jobStore jobID = Inl err \<longrightarrow>
      recoverJobsBatch terminal recoverJob jobStore (jobID # jobs) = ([], Some err)) \<and>
   (GetJobRuntime jobStore jobID = Inr jobRuntime \<and>
    \<not> (terminal (State jobRuntime) \<and> terminal (GoalState jobRuntime) \<and>
       UpdateID jobRuntime = []) \<and>
    GetJobConfig jobStore jobID = Inr jobConfig \<and>
    recoverJob jobID jobConfig jobRuntime = Some err \<longrightarrow>
      recoverJobsBatch terminal recoverJob jobStore (jobID # jobs) = ([], Some err))"
  by auto

theorem recoverJobsBatch_errors_witness:
  "recoverJobsBatch terminal_state (\<lambda>jobID jobConfig jobRuntime. None)
     (store3 (YarpcError CodeNotFound ''stale'')) [''j1'', ''j2''] =
   recoverJobsBatch terminal_state (\<lambda>jobID jobConfig jobRuntime. None)
     (store3 (YarpcError CodeNotFound ''stale'')) [''j2''] \<and>
   recoverJobsBatch terminal_state (\<lambda>jobID jobConfig jobRuntime. None)
     (store3 (YarpcError CodeNotFound ''stale'')) [''j2''] = ([''j2''], None) \<and>
   recoverJobsBatch terminal_state (\<lambda>jobID jobConfig jobRuntime. None)
     (store3 (YarpcError CodeNotFound ''stale'')) [''j3'', ''j2''] =
     ([], Some (YarpcError CodeNotFound ''no config'')) \<and>
   recoverJobsBatch terminal_state
     (\<lambda>jobID jobConfig jobRuntime. Some (YarpcError CodeInternal ''task batch failed''))
     (store3 (YarpcError CodeNotFound ''stale'')) [''j2'', ''j1''] =
     ([], Some (YarpcError CodeInternal ''task batch failed''))"
proof -
  let ?st = "store3 (YarpcError CodeNotFound ''stale'')"
  let ?rt = "\<lparr>State = RUNNING, GoalState = SUCCEEDED, UpdateID = []\<rparr>"
  have a: "GetJobRuntime ?st ''j1'' = Inl (YarpcError CodeNotFound ''stale'')"
    by (simp add: store3_def)
  have b: "GetJobRuntime ?st ''j3'' = Inr ?rt \<and>
           \<not> (terminal_state (State ?rt) \<and> terminal_state (GoalState ?rt) \<and> UpdateID ?rt = []) \<and>
           GetJobConfig ?st ''j3'' = Inl (YarpcError CodeNotFound ''no config'')"
    by (simp add: store3_def terminal_state_def)
  have c: "GetJobRuntime ?st ''j2'' = Inr ?rt \<and>
           \<not> (terminal_state (State ?rt) \<and> terminal_state (GoalState ?rt) \<and> UpdateID ?rt = []) \<and>
           GetJobConfig ?st ''j2'' = Inr 0 \<and>
           (\<lambda>jobID jobConfig jobRuntime. Some (YarpcError CodeInternal ''task batch failed''))
             ''j2'' (0 :: nat) ?rt = Some (YarpcError CodeInternal ''task batch failed'')"
    by (simp add: store3_def terminal_state_def)
  have d: "recoverJobsBatch terminal_state (\<lambda>jobID jobConfig jobRuntime. None) ?st [''j2''] =
           ([''j2''], None)"
    by (simp add: store3_def terminal_state_def)
  have e1: "recoverJobsBatch terminal_state (\<lambda>jobID jobConfig jobRuntime. None) ?st [''j1'', ''j2''] =
            recoverJobsBatch terminal_state (\<lambda>jobID jobConfig jobRuntime. None) ?st [''j2'']"
    by (rule recoverJobsBatch_errors [THEN conjunct1, rule_format, OF a])
  have e2: "recoverJobsBatch terminal_state (\<lambda>jobID jobConfig jobRuntime. None) ?st [''j3'', ''j2''] =
            ([], Some (YarpcError CodeNotFound ''no config''))"
    by (rule recoverJobsBatch_errors [THEN conjunct2, THEN conjunct1, rule_format, OF b])
  have e3: "recoverJobsBatch terminal_state
              (\<lambda>jobID jobConfig jobRuntime. Some (YarpcError CodeInternal ''task batch failed''))
              ?st [''j2'', ''j1''] = ([], Some (YarpcError CodeInternal ''task batch failed''))"
    by (rule recoverJobsBatch_errors [THEN conjunct2, THEN conjunct2, rule_format, OF c])
  show ?thesis
    by (intro conjI e1 e2 e3 d)
qed

section \<open>Properties of the lifecycle manager\<close>

text \<open>
  C9, as stated: when the kill-lock is not held the \<open>KillPods\<close> request is issued.
  With a rate limiter that refuses, no request is sent although the lock is free.
\<close>

theorem Kill_rate_limited_counterexample:
  "\<not> hasKillLock \<lparr>killLock = False\<rparr> \<and>
   Kill (\<lambda>pods. None)
     \<lparr>lock_state = \<lparr>killLock = False\<rparr>,
      metrics = \<lparr>metric_Kill = 0, metric_KillFail = 0, metric_KillRateLimit = 0\<rparr>,
      killPodsRequests = []\<rparr>
     ''pod-1'' '''' (Some False) =
   (Some (YarpcError CodeResourceExhausted ''rate limit reached for kill''),
    \<lparr>lock_state = \<lparr>killLock = False\<rparr>,
     metrics = \<lparr>metric_Kill = 0, metric_KillFail = 1, metric_KillRateLimit = 0\<rparr>,
     killPodsRequests = []\<rparr>)"
  by (simp add: Kill_def hasKillLock_def)

text \<open>
  C9, amended: when the kill-lock is held, \<open>Kill\<close> returns an \<open>Internal\<close> error
  and sends no \<open>KillPods\<close> request; when the lock is not held and a rate limiter is
  given that refuses, it returns \<open>ResourceExhausted\<close> and sends no request; when the
  lock is not held and the rate limiter is nil or allows, exactly one \<open>KillPods\<close>
  request, for the given pod, is sent and the answer of the host manager is returned.
\<close>

theorem Kill_lock_and_rate_limit:
  "(hasKillLock (lock_state l) \<longrightarrow>
      fst (Kill hostmgr l podID host rateLimiter) =
        Some (YarpcError CodeInternal ''kill op is locked'') \<and>
      killPodsRequests (snd (Kill hostmgr l podID host rateLimiter)) = killPodsRequests l) \<and>
   (\<not> hasKillLock (lock_state l) \<and> rateLimiter = Some False \<longrightarrow>
      fst (Kill hostmgr l podID host rateLimiter) =
        Some (YarpcError CodeResourceExhausted ''rate limit reached for kill'') \<and>
      killPodsRequests (snd (Kill hostmgr l podID host rateLimiter)) = killPodsRequests l) \<and>
   (\<not> hasKillLock (lock_state l) \<and> rateLimiter \<noteq> Some False \<longrightarrow>
      fst (Kill hostmgr l podID host rateLimiter) = hostmgr [podID] \<and>
      killPodsRequests (snd (Kill hostmgr l podID host rateLimiter)) =
        killPodsRequests l @ [[podID]])"
  by (cases rateLimiter; cases "hostmgr [podID]") (auto simp: Kill_def Let_def)

theorem Kill_lock_and_rate_limit_witness:
  "fst (Kill (\<lambda>pods. None)
          \<lparr>lock_state = \<lparr>killLock = True\<rparr>,
           metrics = \<lparr>metric_Kill = 0, metric_KillFail = 0, metric_KillRateLimit = 0\<rparr>,
           killPodsRequests = []\<rparr> ''pod-1'' '''' None) =
     Some (YarpcError CodeInternal ''kill op is locked'') \<and>
   killPodsRequests
     (snd (Kill (\<lambda>pods. None)
          \<lparr>lock_state = \<lparr>killLock = True\<rparr>,
           metrics = \<lparr>metric_Kill = 0, metric_KillFail = 0, metric_KillRateLimit = 0\<rparr>,
           killPodsRequests = []\<rparr> ''pod-1'' '''' None)) = [] \<and>
   fst (Kill (\<lambda>pods. None)
          \<lparr>lock_state = \<lparr>killLock = False\<rparr>,
           metrics = \<lparr>metric_Kill = 0, metric_KillFail = 0, metric_KillRateLimit = 0\<rparr>,
           killPodsRequests = []\<rparr> ''pod-1'' '''' (Some False)) =
     Some (YarpcError CodeResourceExhausted ''rate limit reached for kill'') \<and>
   killPodsRequests
     (snd (Kill (\<lambda>pods. None)
          \<lparr>lock_state = \<lparr>killLock = False\<rparr>,
           metrics = \<lparr>metric_Kill = 0, metric_KillFail = 0, metric_KillRateLimit = 0\<rparr>,
           killPodsRequests = []\<rparr> ''pod-1'' '''' (Some True))) = [[''pod-1'']]"
proof -
  let ?m = "\<lparr>metric_Kill = 0, metric_KillFail = 0, metric_KillRateLimit = 0\<rparr>"
  let ?locked = "\<lparr>lock_state = \<lparr>killLock = True\<rparr>, metrics = ?m, killPodsRequests = []\<rparr>"
  let ?free = "\<lparr>lock_state = \<lparr>killLock = False\<rparr>, metrics = ?m, killPodsRequests = []\<rparr>"
  have a: "hasKillLock (lock_state ?locked)" "\<not> hasKillLock (lock_state ?free)"
    by (simp_all add: hasKillLock_def)
  from Kill_lock_and_rate_limit [of ?locked "\<lambda>pods. None" "''pod-1''" "''''" None]
       Kill_lock_and_rate_limit [of ?free "\<lambda>pods. None" "''pod-1''" "''''" "Some False"]
       Kill_lock_and_rate_limit [of ?free "\<lambda>pods. None" "''pod-1''" "''''" "Some True"]
       a
  show ?thesis by simp
qed

section \<open>Properties of the resource pool tree\<close>

lemmas tree_eval =
  Upsert_def Delete_def lookupResPool_def Get_def NewRespool_def SetResourcePoolConfig_def
  root_only_def root_node_def RootResPoolID_def pool_config_def accept_all_def Let_def
  tree_a_def tree_ab_def tree_abc_def tree_ab_queued_def

lemma tree_a_reached:
  "Upsert accept_all root_only ''a'' (pool_config ''a'' ''root'' []) = Inr tree_a"
  by (simp add: tree_eval)

lemma tree_ab_reached:
  "Upsert accept_all tree_a ''b'' (pool_config ''b'' ''a'' []) = Inr tree_ab"
  by (simp add: tree_eval)

lemma tree_abc_reached:
  "Upsert accept_all tree_ab ''c'' (pool_config ''c'' ''b'' []) = Inr tree_abc"
  by (simp add: tree_eval)

subsection \<open>Delete\<close>

lemma map_of_fold_delete:
  "map_of (fold (\<lambda>child pools. AList.delete (f child) pools) cs m) k =
     (if k \<in> f ` set cs then None else map_of m k)"
  by (induction cs arbitrary: m) (auto simp: AList.delete_conv')

lemma Delete_InrE:
  assumes "Delete t respoolID = Inr t'"
  obtains n par where
    "lookupResPool t respoolID = Inr n"
    "parent (heap t n) = Some par"
    "heap t' = (heap t)
       (par := (heap t par)
          \<lparr>children := filter (\<lambda>child. ID (heap t child) \<noteq> respoolID) (children (heap t par))\<rparr>)"
    "resPools t' =
       AList.delete respoolID
         (fold (\<lambda>child pools. AList.delete (ID (heap t' child)) pools)
            (children (heap t' n)) (resPools t))"
    "root t' = root t" "next_addr t' = next_addr t" "updatedChan t' = updatedChan t"
proof (cases "lookupResPool t respoolID")
  case (Inl e)
  with assms show ?thesis by (simp add: Delete_def)
next
  case (Inr n)
  show ?thesis
  proof (cases "parent (heap t n)")
    case None
    with Inr assms show ?thesis by (simp add: Delete_def)
  next
    case (Some par)
    let ?h = "(heap t)
       (par := (heap t par)
          \<lparr>children := filter (\<lambda>child. ID (heap t child) \<noteq> respoolID) (children (heap t par))\<rparr>)"
    from assms Inr Some have t': "t' = t\<lparr>heap := ?h,
        resPools := AList.delete respoolID
         (fold (\<lambda>child pools. AList.delete (ID (?h child)) pools)
            (children (?h n)) (resPools t))\<rparr>"
      by (simp add: Delete_def Let_def)
    show ?thesis
      by (rule that[OF Inr Some]) (simp_all add: t')
  qed
qed


lemma Delete_Inl_iff:
  "Delete t respoolID = Inl e \<longleftrightarrow>
     Get t respoolID = Inl e \<or>
     (\<exists>n. Get t respoolID = Inr n \<and> parent (heap t n) = None \<and> e = ErrParentNil)"
  by (cases "lookupResPool t respoolID"; cases "parent (heap t (projr (lookupResPool t respoolID)))")
     (auto simp: Delete_def Get_def Let_def)

lemma Get_after_Delete:
  assumes "Delete t respoolID = Inr t'" "Get t respoolID = Inr n"
  shows "Get t' k =
     (if k = respoolID \<or> (\<exists>c\<in>set (children (heap t n)). ID (heap t c) = k)
      then Inl (ErrNotFound k) else Get t k)"
proof -
  from assms(1) obtain n' par where
    n': "lookupResPool t respoolID = Inr n'" and
    h: "heap t' = (heap t)
       (par := (heap t par)
          \<lparr>children := filter (\<lambda>child. ID (heap t child) \<noteq> respoolID) (children (heap t par))\<rparr>)" and
    p: "resPools t' =
       AList.delete respoolID
         (fold (\<lambda>child pools. AList.delete (ID (heap t' child)) pools)
            (children (heap t' n')) (resPools t))"
    by (rule Delete_InrE)
  from n' assms(2) have [simp]: "n' = n" by (simp add: Get_def)
  have ids: "ID (heap t' c) = ID (heap t c)" for c
    by (simp add: h)
  have ch: "set (children (heap t' n)) =
            (if n = par then {c \<in> set (children (heap t n)). ID (heap t c) \<noteq> respoolID}
             else set (children (heap t n)))"
    by (simp add: h)
  have "map_of (resPools t') k =
        (if k = respoolID \<or> k \<in> (\<lambda>c. ID (heap t' c)) ` set (children (heap t' n))
         then None else map_of (resPools t) k)"
    by (simp add: p AList.delete_conv' map_of_fold_delete)
  moreover have "k = respoolID \<or> k \<in> (\<lambda>c. ID (heap t' c)) ` set (children (heap t' n)) \<longleftrightarrow>
                 k = respoolID \<or> (\<exists>c\<in>set (children (heap t n)). ID (heap t c) = k)"
    unfolding ids ch by auto
  ultimately show ?thesis
    by (simp add: Get_def lookupResPool_def)
qed

lemma Get_in_GetAllNodes: "Get t k = Inr g \<Longrightarrow> g \<in> set (GetAllNodes t False)"
  by (auto simp: Get_def lookupResPool_def GetAllNodes_def split: option.splits
      dest!: map_of_SomeD intro!: image_eqI[where x = "(k, g)"])

text \<open>
  C10. After \<open>Delete\<close> succeeds, exactly the deleted node and its immediate
  children are gone from the index: every other identifier, so that of a grandchild
  or of a deeper descendant, is still resolved by \<open>Get\<close> to the node it had, and
  every node that \<open>Get\<close> resolves is listed by \<open>GetAllNodes\<close>.
\<close>

theorem Delete_keeps_grandchildren:
  assumes "Delete t respoolID = Inr t'" and "Get t respoolID = Inr n"
  shows "(\<forall>k. Get t' k =
            (if k = respoolID \<or> (\<exists>c\<in>set (children (heap t n)). ID (heap t c) = k)
             then Inl (ErrNotFound k) else Get t k)) \<and>
         (\<forall>k g. Get t' k = Inr g \<longrightarrow> g \<in> set (GetAllNodes t' False))"
  using Get_after_Delete[OF assms] Get_in_GetAllNodes by blast

lemma Delete_abc:
  "Delete tree_abc ''a'' = Inr (projr (Delete tree_abc ''a''))"
  "Get tree_abc ''a'' = Inr (Suc 0)"
  "Get tree_abc ''c'' = Inr 3"
  "children (heap tree_abc (Suc 0)) = [2]"
  "children (heap tree_abc 2) = [3]"
  "ID (heap tree_abc 2) = ''b''"
  "parent (heap (projr (Delete tree_abc ''a'')) 3) = Some 2"
  by (simp_all add: tree_eval)

theorem Delete_keeps_grandchildren_witness:
  "Delete tree_abc ''a'' = Inr (projr (Delete tree_abc ''a'')) \<and>
   children (heap tree_abc 1) = [2] \<and> children (heap tree_abc 2) = [3] \<and>
   Get (projr (Delete tree_abc ''a'')) ''a'' = Inl (ErrNotFound ''a'') \<and>
   Get (projr (Delete tree_abc ''a'')) ''b'' = Inl (ErrNotFound ''b'') \<and>
   Get (projr (Delete tree_abc ''a'')) ''c'' = Inr 3 \<and>
   3 \<in> set (GetAllNodes (projr (Delete tree_abc ''a'')) False) \<and>
   parent (heap (projr (Delete tree_abc ''a'')) 3) = Some 2"
proof -
  note w = Delete_keeps_grandchildren [OF Delete_abc(1) Delete_abc(2)]
  from w have a: "Get (projr (Delete tree_abc ''a'')) ''a'' = Inl (ErrNotFound ''a'')"
    by simp
  from w have b: "Get (projr (Delete tree_abc ''a'')) ''b'' = Inl (ErrNotFound ''b'')"
    by (simp add: Delete_abc(2-6))
  from w have c: "Get (projr (Delete tree_abc ''a'')) ''c'' = Inr 3"
    by (simp add: Delete_abc(2-6))
  from w c have d: "3 \<in> set (GetAllNodes (projr (Delete tree_abc ''a'')) False)"
    by blast
  show ?thesis
    using a b c d Delete_abc(1) by (simp add: Delete_abc(2-7))
qed

text \<open>
  C2, as stated: \<open>Delete\<close> returns an error when the node has children or queued
  gangs. In \<open>root \<rightarrow> a \<rightarrow> b\<close> the node \<open>a\<close> has the child \<open>b\<close> and is
  deleted; with a gang queued at the leaf \<open>b\<close>, \<open>b\<close> is deleted.
\<close>

theorem Delete_with_children_counterexample:
  "children (heap tree_ab 1) = [2] \<and>
   Get tree_ab ''a'' = Inr 1 \<and>
   \<not> isl (Delete tree_ab ''a'') \<and>
   Get (projr (Delete tree_ab ''a'')) ''a'' = Inl (ErrNotFound ''a'') \<and>
   demand_queue (heap tree_ab_queued 2) = [7] \<and>
   Get tree_ab_queued ''b'' = Inr 2 \<and>
   \<not> isl (Delete tree_ab_queued ''b'') \<and>
   Get (projr (Delete tree_ab_queued ''b'')) ''b'' = Inl (ErrNotFound ''b'')"
  by (simp add: tree_eval)

text \<open>
  C2, amended: \<open>Delete\<close> returns an error, and leaves the tree as it is, exactly
  when the identifier is not in the index or the node has no parent (the root). It
  does not look at the children or at the demand queue of the node: every other
  node is taken out of the children of its parent and out of the index, together
  with the index entries of its immediate children; every other index entry stays.
\<close>

theorem Delete_rejects_unknown_and_root_only:
  "(Delete t respoolID = Inl e \<longleftrightarrow>
      Get t respoolID = Inl e \<or>
      (\<exists>n. Get t respoolID = Inr n \<and> parent (heap t n) = None \<and> e = ErrParentNil)) \<and>
   (Get t respoolID = Inr n \<and> parent (heap t n) = Some par \<longrightarrow>
      (\<exists>t'. Delete t respoolID = Inr t' \<and>
            children (heap t' par) =
              filter (\<lambda>child. ID (heap t child) \<noteq> respoolID) (children (heap t par)) \<and>
            Get t' respoolID = Inl (ErrNotFound respoolID) \<and>
            (\<forall>c\<in>set (children (heap t n)).
               Get t' (ID (heap t c)) = Inl (ErrNotFound (ID (heap t c)))) \<and>
            (\<forall>k. k \<noteq> respoolID \<and> (\<forall>c\<in>set (children (heap t n)). ID (heap t c) \<noteq> k) \<longrightarrow>
               Get t' k = Get t k)))"
proof (intro conjI impI)
  show "Delete t respoolID = Inl e \<longleftrightarrow>
      Get t respoolID = Inl e \<or>
      (\<exists>n. Get t respoolID = Inr n \<and> parent (heap t n) = None \<and> e = ErrParentNil)"
    by (rule Delete_Inl_iff)
next
  assume a: "Get t respoolID = Inr n \<and> parent (heap t n) = Some par"
  then have g: "Get t respoolID = Inr n" by simp
  from a have "\<not> isl (Delete t respoolID)"
    by (simp add: Delete_def Get_def Let_def)
  then obtain t' where t': "Delete t respoolID = Inr t'"
    by (cases "Delete t respoolID") simp_all
  from t' obtain n' par' where
    n': "lookupResPool t respoolID = Inr n'" and
    p': "parent (heap t n') = Some par'" and
    h: "heap t' = (heap t)
       (par' := (heap t par')
          \<lparr>children := filter (\<lambda>child. ID (heap t child) \<noteq> respoolID) (children (heap t par'))\<rparr>)"
    by (rule Delete_InrE)
  from a n' p' have "par' = par" by (simp add: Get_def)
  then have c1: "children (heap t' par) =
              filter (\<lambda>child. ID (heap t child) \<noteq> respoolID) (children (heap t par))"
    by (simp add: h)
  note G = Get_after_Delete[OF t' g]
  have c2: "Get t' respoolID = Inl (ErrNotFound respoolID)"
    by (simp add: G)
  have c3: "\<forall>c\<in>set (children (heap t n)).
               Get t' (ID (heap t c)) = Inl (ErrNotFound (ID (heap t c)))"
    by (auto simp: G)
  have c4: "\<forall>k. k \<noteq> respoolID \<and> (\<forall>c\<in>set (children (heap t n)). ID (heap t c) \<noteq> k) \<longrightarrow>
               Get t' k = Get t k"
    by (auto simp: G)
  from t' c1 c2 c3 c4 show "\<exists>t'. Delete t respoolID = Inr t' \<and>
            children (heap t' par) =
              filter (\<lambda>child. ID (heap t child) \<noteq> respoolID) (children (heap t par)) \<and>
            Get t' respoolID = Inl (ErrNotFound respoolID) \<and>
            (\<forall>c\<in>set (children (heap t n)).
               Get t' (ID (heap t c)) = Inl (ErrNotFound (ID (heap t c)))) \<and>
            (\<forall>k. k \<noteq> respoolID \<and> (\<forall>c\<in>set (children (heap t n)). ID (heap t c) \<noteq> k) \<longrightarrow>
               Get t' k = Get t k)"
    by blast
qed

lemma Delete_ab:
  "Get tree_ab ''zz'' = Inl (ErrNotFound ''zz'')"
  "Get tree_ab ''root'' = Inr 0 \<and> parent (heap tree_ab 0) = None"
  "Get tree_ab ''a'' = Inr 1 \<and> parent (heap tree_ab 1) = Some 0"
  "children (heap tree_ab 0) = [Suc 0]"
  "ID (heap tree_ab (Suc 0)) = ''a''"
  "children (heap tree_ab (Suc 0)) = [2]"
  "ID (heap tree_ab 2) = ''b''"
  "Get tree_ab ''b'' = Inr 2"
  by (simp_all add: tree_eval)

theorem Delete_rejects_unknown_and_root_only_witness:
  "Delete tree_ab ''zz'' = Inl (ErrNotFound ''zz'') \<and>
   Delete tree_ab ''root'' = Inl ErrParentNil \<and>
   Get tree_ab ''b'' = Inr 2 \<and>
   (\<exists>t'. Delete tree_ab ''a'' = Inr t' \<and> children (heap t' 0) = [] \<and>
         Get t' ''a'' = Inl (ErrNotFound ''a'') \<and>
         Get t' ''b'' = Inl (ErrNotFound ''b'') \<and>
         Get t' ''root'' = Inr 0)"
proof -
  have a: "Delete tree_ab ''zz'' = Inl (ErrNotFound ''zz'')"
    using Delete_rejects_unknown_and_root_only
            [of tree_ab "''zz''" "ErrNotFound ''zz''", THEN conjunct1] Delete_ab(1)
    by blast
  have b: "Delete tree_ab ''root'' = Inl ErrParentNil"
    using Delete_rejects_unknown_and_root_only
            [of tree_ab "''root''" ErrParentNil, THEN conjunct1] Delete_ab(2)
    by blast
  from Delete_rejects_unknown_and_root_only
            [of tree_ab "''a''" _ 1 0, THEN conjunct2, rule_format, OF Delete_ab(3)]
  obtain t' where t': "Delete tree_ab ''a'' = Inr t'"
    and c1: "children (heap t' 0) =
              filter (\<lambda>child. ID (heap tree_ab child) \<noteq> ''a'') (children (heap tree_ab 0))"
    and c2: "Get t' ''a'' = Inl (ErrNotFound ''a'')"
    and c3: "\<forall>c\<in>set (children (heap tree_ab 1)).
               Get t' (ID (heap tree_ab c)) = Inl (ErrNotFound (ID (heap tree_ab c)))"
    and c4: "\<forall>k. k \<noteq> ''a'' \<and> (\<forall>c\<in>set (children (heap tree_ab 1)). ID (heap tree_ab c) \<noteq> k) \<longrightarrow>
               Get t' k = Get tree_ab k"
    by blast
  from c1 have d1: "children (heap t' 0) = []" by (simp add: Delete_ab(4,5))
  from c3 have d3: "Get t' ''b'' = Inl (ErrNotFound ''b'')" by (simp add: Delete_ab(6,7))
  from c4 have "''root'' \<noteq> ''a'' \<and> (\<forall>c\<in>set (children (heap tree_ab 1)). ID (heap tree_ab c) \<noteq> ''root'') \<longrightarrow>
               Get t' ''root'' = Get tree_ab ''root''" by (rule spec)
  then have d4: "Get t' ''root'' = Inr 0" by (simp add: Delete_ab(2,6,7))
  from t' d1 c2 d3 d4 have "\<exists>t'. Delete tree_ab ''a'' = Inr t' \<and> children (heap t' 0) = [] \<and>
         Get t' ''a'' = Inl (ErrNotFound ''a'') \<and>
         Get t' ''b'' = Inl (ErrNotFound ''b'') \<and>
         Get t' ''root'' = Inr 0" by blast
  with a b Delete_ab(8) show ?thesis by blast
qed

subsection \<open>Upsert\<close>

lemma Upsert_parent_missing:
  "Parent resPoolConfig = Some parentID \<Longrightarrow> Get t parentID = Inl err \<Longrightarrow>
   Upsert accepts t ident resPoolConfig = Inl (ErrWrap ''parent does not exists'' err)"
  by (simp add: Upsert_def Get_def)

text \<open>
  C4. \<open>Upsert\<close> returns an error for an upsert that would introduce a cycle. In
  \<open>root \<rightarrow> a \<rightarrow> b\<close>, updating \<open>a\<close> with a configuration whose parent is
  \<open>b\<close> succeeds: afterwards the configuration of \<open>a\<close> names \<open>b\<close> as parent and
  that of \<open>b\<close> names \<open>a\<close>.
\<close>

theorem Upsert_accepts_cycle:
  "\<not> isl (Upsert accept_all tree_ab ''a'' (pool_config ''a'' ''b'' [])) \<and>
   Get (projr (Upsert accept_all tree_ab ''a'' (pool_config ''a'' ''b'' []))) ''a'' = Inr 1 \<and>
   Get (projr (Upsert accept_all tree_ab ''a'' (pool_config ''a'' ''b'' []))) ''b'' = Inr 2 \<and>
   Parent (poolConfig
     (heap (projr (Upsert accept_all tree_ab ''a'' (pool_config ''a'' ''b'' []))) 1)) =
     Some ''b'' \<and>
   Parent (poolConfig
     (heap (projr (Upsert accept_all tree_ab ''a'' (pool_config ''a'' ''b'' []))) 2)) =
     Some ''a''"
  by (simp add: tree_eval)

subsection \<open>Parsing a path\<close>

lemma Split_sep_no_delim:
  "CHR ''/'' \<notin> set w \<Longrightarrow> Split_sep ''/'' w = [w]"
  by (induction w) auto

lemma Split_sep_segment:
  "CHR ''/'' \<notin> set w \<Longrightarrow> Split_sep ''/'' (w @ CHR ''/'' # rest) = w # Split_sep ''/'' rest"
  by (induction w) auto

lemma Split_join_path:
  "list_all valid_name names \<Longrightarrow> names \<noteq> [] \<Longrightarrow>
   Split (join_path names) ResourcePoolPathDelimiter = names"
proof (induction names rule: join_path.induct)
  case 1
  then show ?case by simp
next
  case (2 n)
  then show ?case
    by (simp add: Split_def ResourcePoolPathDelimiter_def valid_name_def Split_sep_no_delim)
next
  case (3 n m names)
  then have "Split_sep ''/'' (join_path (m # names)) = m # names"
    by (simp add: Split_def ResourcePoolPathDelimiter_def)
  moreover have "CHR ''/'' \<notin> set n" using 3 by (simp add: valid_name_def)
  ultimately show ?case
    by (simp add: Split_def ResourcePoolPathDelimiter_def Split_sep_segment)
qed

lemma join_path_last:
  "list_all valid_name names \<Longrightarrow> names \<noteq> [] \<Longrightarrow>
   join_path names \<noteq> [] \<and> last (join_path names) \<noteq> CHR ''/'' \<and> hd (join_path names) \<noteq> CHR ''/''"
proof (induction names rule: join_path.induct)
  case 1
  then show ?case by simp
next
  case (2 n)
  then have n: "n \<noteq> []" "CHR ''/'' \<notin> set n"
    by (simp_all add: valid_name_def)
  have "last n \<noteq> CHR ''/''" "hd n \<noteq> CHR ''/''"
    using n by (metis last_in_set, metis hd_in_set)
  with n show ?case by simp
next
  case (3 n m names)
  then have n: "n \<noteq> []" "CHR ''/'' \<notin> set n"
    by (simp_all add: valid_name_def)
  have "hd n \<noteq> CHR ''/''"
    using n by (metis hd_in_set)
  moreover note n
  moreover have "join_path (m # names) \<noteq> []" "last (join_path (m # names)) \<noteq> CHR ''/''"
    using 3 by simp_all
  ultimately show ?case
    by (auto simp: ResourcePoolPathDelimiter_def)
qed

lemma trimPath_path_of:
  assumes "list_all valid_name names" "names \<noteq> []"
  shows "trimPath (path_of names) = join_path names"
    and "path_of names \<noteq> ResourcePoolPathDelimiter"
proof -
  let ?j = "join_path names"
  from join_path_last[OF assms] have j: "?j \<noteq> []" "last ?j \<noteq> CHR ''/''" by simp_all
  have p: "path_of names = CHR ''/'' # ?j"
    using assms(2) by (simp add: path_of_def ResourcePoolPathDelimiter_def)
  have "drop (length ?j) (CHR ''/'' # ?j) = [last ?j]"
    using j(1) by (cases ?j rule: rev_cases) simp_all
  then have "TrimSuffix (CHR ''/'' # ?j) ''/'' = CHR ''/'' # ?j"
    using j by (simp add: TrimSuffix_def)
  then show "trimPath (path_of names) = ?j"
    by (simp add: trimPath_def p ResourcePoolPathDelimiter_def TrimPrefix_def)
  show "path_of names \<noteq> ResourcePoolPathDelimiter"
    using j(1) by (simp add: p ResourcePoolPathDelimiter_def)
qed

lemma GetByPath_path_of:
  assumes "root t = Some r" "list_all valid_name names"
  shows "GetByPath t (path_of names) =
     (case walkTree (heap t) r names of
        Inl err \<Rightarrow> Inl (ErrWrap (''unable to find resource pool with path:'' @ path_of names) err)
      | Inr n \<Rightarrow> Inr n)"
proof (cases "names = []")
  case True
  then show ?thesis using assms(1) by (simp add: GetByPath_def path_of_def)
next
  case False
  from trimPath_path_of[OF assms(2) False] Split_join_path[OF assms(2) False]
  show ?thesis using assms(1) by (simp add: GetByPath_def)
qed

subsection \<open>Walking the tree\<close>

lemma walkTree_append:
  "walkTree h r names = Inr q \<Longrightarrow> walkTree h r (names @ rest) = walkTree h q rest"
  by (induction names arbitrary: r) (auto split: option.splits)

lemma walkTree_reaches: "walkTree h r names = Inr n \<Longrightarrow> reaches h r names n"
proof (induction names arbitrary: r)
  case Nil
  then show ?case by simp
next
  case (Cons s names)
  then obtain c where c: "find (\<lambda>child. respool_Name (h child) = s) (children (h r)) = Some c"
    and w: "walkTree h c names = Inr n"
    by (auto split: option.splits)
  from c have "c \<in> set (children (h r))" "respool_Name (h c) = s"
    by (auto simp: find_Some_iff)
  with Cons.IH[OF w] show ?case by auto
qed

lemma walkTree_error: "walkTree h r names = Inl e \<Longrightarrow> \<exists>rest. e = ErrPathNotFound rest"
  by (induction names arbitrary: r) (auto split: option.splits)

lemma find_append_Some: "find P xs = Some x \<Longrightarrow> find P (xs @ ys) = Some x"
  by (induction xs) (auto split: if_splits)

lemma find_append_None: "find P xs = None \<Longrightarrow> find P (xs @ ys) = find P ys"
  by (induction xs) (auto split: if_splits)

lemma walkTree_frame:
  assumes "r < N"
    and "\<forall>n<N. \<forall>c\<in>set (children (h n)). c < N"
    and "\<forall>n<N. respool_Name (h' n) = respool_Name (h n)"
    and "\<forall>n<N. \<exists>extra. children (h' n) = children (h n) @ extra"
    and "walkTree h r names = Inr q"
  shows "walkTree h' r names = Inr q \<and> q < N"
  using assms(1,5)
proof (induction names arbitrary: r)
  case Nil
  then show ?case by simp
next
  case (Cons s names)
  from Cons.prems(2) obtain c where
    c: "find (\<lambda>child. respool_Name (h child) = s) (children (h r)) = Some c"
    and w: "walkTree h c names = Inr q"
    by (auto split: option.splits)
  from c have cin: "c \<in> set (children (h r))" by (auto simp: find_Some_iff)
  with assms(2) Cons.prems(1) have cN: "c < N" by blast
  have "find (\<lambda>child. respool_Name (h' child) = s) (children (h r)) =
        find (\<lambda>child. respool_Name (h child) = s) (children (h r))"
    using assms(2,3) Cons.prems(1) by (intro find_cong) auto
  moreover obtain extra where "children (h' r) = children (h r) @ extra"
    using assms(4) Cons.prems(1) by blast
  ultimately have "find (\<lambda>child. respool_Name (h' child) = s) (children (h' r)) = Some c"
    using c by (simp add: find_append_Some)
  with Cons.IH[OF cN w] show ?case by simp
qed

subsection \<open>Closed trees\<close>

lemma closed_index: "closed_tree t \<Longrightarrow> map_of (resPools t) k = Some n \<Longrightarrow> n < next_addr t"
  by (auto simp: closed_tree_def list_all_iff dest!: map_of_SomeD)

lemma closed_root: "closed_tree t \<Longrightarrow> root t = Some r \<Longrightarrow> r < next_addr t"
  by (simp add: closed_tree_def)

lemma closed_children:
  "closed_tree t \<Longrightarrow> n < next_addr t \<Longrightarrow> c \<in> set (children (heap t n)) \<Longrightarrow> c < next_addr t"
  by (auto simp: closed_tree_def list_all_iff)

lemma closed_root_only: "closed_tree root_only"
  by (simp add: closed_tree_def root_only_def root_node_def)

subsection \<open>What Upsert does to the tree\<close>

lemma Upsert_create:
  assumes "Upsert accepts t ident cfg = Inr t'"
    and "Get t ident = Inl e"
  obtains parentID par where
    "Parent cfg = Some parentID" "Get t parentID = Inr par" "accepts cfg"
    "heap t' = ((heap t)
        (next_addr t := \<lparr>ID = ident, parent = Some par, children = [], poolConfig = cfg,
                         demand_queue = []\<rparr>))
        (par := (((heap t)
            (next_addr t := \<lparr>ID = ident, parent = Some par, children = [], poolConfig = cfg,
                         demand_queue = []\<rparr>)) par)
           \<lparr>children := children (((heap t)
            (next_addr t := \<lparr>ID = ident, parent = Some par, children = [], poolConfig = cfg,
                         demand_queue = []\<rparr>)) par) @ [next_addr t]\<rparr>)"
    "next_addr t' = Suc (next_addr t)"
    "resPools t' = AList.update ident (next_addr t) (resPools t)"
    "root t' = root t"
proof (cases "Parent cfg")
  case None
  with assms(1) show ?thesis by (simp add: Upsert_def)
next
  case (Some parentID)
  show ?thesis
  proof (cases "lookupResPool t parentID")
    case (Inl e')
    with assms(1) Some show ?thesis by (simp add: Upsert_def)
  next
    case (Inr par)
    show ?thesis
    proof (cases "accepts cfg")
      case False
      with assms Some Inr show ?thesis
        by (simp add: Upsert_def Get_def NewRespool_def)
    next
      case True
      let ?node = "\<lparr>ID = ident, parent = Some par, children = [], poolConfig = cfg,
                     demand_queue = []\<rparr>"
      let ?h = "(heap t)(next_addr t := ?node)"
      from assms Some Inr True have
        "t' = t\<lparr>heap := ?h(par := (?h par)\<lparr>children := children (?h par) @ [next_addr t]\<rparr>),
                next_addr := Suc (next_addr t),
                resPools := AList.update ident (next_addr t) (resPools t),
                updatedChan := True\<rparr>"
        by (simp add: Upsert_def Get_def NewRespool_def Let_def)
      then show ?thesis
        using Some Inr True by (intro that[of parentID par]) (simp_all add: Get_def)
    qed
  qed
qed

lemma Upsert_update:
  assumes "Upsert accepts t ident cfg = Inr t'"
    and "Get t ident = Inr n"
  shows "heap t' = (heap t)(n := (heap t n)\<lparr>poolConfig := cfg\<rparr>)"
    and "next_addr t' = next_addr t"
    and "resPools t' = AList.update ident n (resPools t)"
    and "root t' = root t"
proof -
  from assms obtain parentID par where
    "Parent cfg = Some parentID" "lookupResPool t parentID = Inr par"
    by (auto simp: Upsert_def split: option.splits sum.splits)
  with assms have
    "t' = t\<lparr>heap := (heap t)(n := (heap t n)\<lparr>poolConfig := cfg\<rparr>),
            resPools := AList.update ident n (resPools t),
            updatedChan := True\<rparr>"
    by (simp add: Upsert_def Get_def SetResourcePoolConfig_def)
  then show "heap t' = (heap t)(n := (heap t n)\<lparr>poolConfig := cfg\<rparr>)"
    and "next_addr t' = next_addr t"
    and "resPools t' = AList.update ident n (resPools t)"
    and "root t' = root t"
    by simp_all
qed

lemma Upsert_create_heap:
  assumes "Upsert accepts t ident cfg = Inr t'" "Get t ident = Inl e" "closed_tree t"
  obtains parentID par where
    "Parent cfg = Some parentID" "Get t parentID = Inr par" "par < next_addr t"
    "heap t' (next_addr t) =
       \<lparr>ID = ident, parent = Some par, children = [], poolConfig = cfg, demand_queue = []\<rparr>"
    "heap t' par = (heap t par)\<lparr>children := children (heap t par) @ [next_addr t]\<rparr>"
    "\<forall>n. n \<noteq> par \<and> n \<noteq> next_addr t \<longrightarrow> heap t' n = heap t n"
    "next_addr t' = Suc (next_addr t)"
    "resPools t' = AList.update ident (next_addr t) (resPools t)"
    "root t' = root t"
proof -
  from assms(1,2) obtain parentID par where
    pc: "Parent cfg = Some parentID" and
    par: "Get t parentID = Inr par" and
    h: "heap t' = ((heap t)
        (next_addr t := \<lparr>ID = ident, parent = Some par, children = [], poolConfig = cfg,
                         demand_queue = []\<rparr>))
        (par := (((heap t)
            (next_addr t := \<lparr>ID = ident, parent = Some par, children = [], poolConfig = cfg,
                         demand_queue = []\<rparr>)) par)
           \<lparr>children := children (((heap t)
            (next_addr t := \<lparr>ID = ident, parent = Some par, children = [], poolConfig = cfg,
                         demand_queue = []\<rparr>)) par) @ [next_addr t]\<rparr>)" and
    rest: "next_addr t' = Suc (next_addr t)"
      "resPools t' = AList.update ident (next_addr t) (resPools t)"
      "root t' = root t"
    by (rule Upsert_create)
  from par assms(3) have lt: "par < next_addr t"
    by (auto simp: Get_def lookupResPool_def split: option.splits intro: closed_index)
  show ?thesis
    using lt by (intro that[OF pc par lt _ _ _ rest]) (simp_all add: h)
qed

lemma Upsert_create_GetByPath:
  assumes up: "Upsert accepts t ident cfg = Inr t'"
    and new: "Get t ident = Inl e"
    and cl: "closed_tree t"
    and pc: "Parent cfg = Some parentID"
    and par: "Get t parentID = Inr par"
    and path: "GetByPath t (path_of names) = Inr par"
    and names: "list_all valid_name names"
    and name: "valid_name (Name cfg)"
    and fresh: "\<forall>c\<in>set (children (heap t par)). respool_Name (heap t c) \<noteq> Name cfg"
  shows "GetByPath t' (path_of (names @ [Name cfg])) = Inr (next_addr t) \<and>
         Get t' ident = Inr (next_addr t) \<and>
         ID (heap t' (next_addr t)) = ident \<and>
         poolConfig (heap t' (next_addr t)) = cfg"
proof -
  let ?a = "next_addr t"
  from up new cl obtain parentID' par' where
    pc': "Parent cfg = Some parentID'" and par': "Get t parentID' = Inr par'" and
    lt: "par' < ?a" and
    ha: "heap t' ?a =
       \<lparr>ID = ident, parent = Some par', children = [], poolConfig = cfg, demand_queue = []\<rparr>" and
    hp: "heap t' par' = (heap t par')\<lparr>children := children (heap t par') @ [?a]\<rparr>" and
    ho': "\<forall>n. n \<noteq> par' \<and> n \<noteq> ?a \<longrightarrow> heap t' n = heap t n" and
    nx: "next_addr t' = Suc ?a" and
    rp: "resPools t' = AList.update ident ?a (resPools t)" and
    rt: "root t' = root t"
    by (rule Upsert_create_heap)
  from pc pc' par par' have [simp]: "par' = par" by simp
  from ho' have ho: "heap t' n = heap t n" if "n \<noteq> par" "n \<noteq> ?a" for n
    using that by simp
  from path obtain r where r: "root t = Some r"
    by (auto simp: GetByPath_def split: option.splits)
  from path have w: "walkTree (heap t) r names = Inr par"
    using GetByPath_path_of[OF r names] by (auto split: sum.splits)
  have rN: "r < ?a" using cl r by (rule closed_root)
  have old_name: "respool_Name (heap t' n) = respool_Name (heap t n)" if "n < ?a" for n
    using that ho[of n] hp by (cases "n = par") (simp_all add: respool_Name_def)
  have old_children: "\<exists>extra. children (heap t' n) = children (heap t n) @ extra" if "n < ?a" for n
    using that ho[of n] hp by (cases "n = par") simp_all
  have "walkTree (heap t') r names = Inr par \<and> par < ?a"
    using rN _ _ _ w
  proof (rule walkTree_frame)
    show "\<forall>n<?a. \<forall>c\<in>set (children (heap t n)). c < ?a"
      using cl by (auto intro: closed_children)
    show "\<forall>n<?a. respool_Name (heap t' n) = respool_Name (heap t n)"
      using old_name by blast
    show "\<forall>n<?a. \<exists>extra. children (heap t' n) = children (heap t n) @ extra"
      using old_children by blast
  qed
  then have w': "walkTree (heap t') r (names @ [Name cfg]) = walkTree (heap t') par [Name cfg]"
    by (simp add: walkTree_append)
  have "find (\<lambda>child. respool_Name (heap t' child) = Name cfg) (children (heap t par)) = None"
  proof -
    have "respool_Name (heap t' c) \<noteq> Name cfg" if "c \<in> set (children (heap t par))" for c
    proof -
      from that cl lt have "c < ?a" by (auto intro: closed_children)
      with old_name fresh that show ?thesis by simp
    qed
    then show ?thesis by (simp add: find_None_iff)
  qed
  then have "find (\<lambda>child. respool_Name (heap t' child) = Name cfg) (children (heap t' par)) =
             Some ?a"
    using hp ha by (simp add: find_append_None respool_Name_def)
  then have "walkTree (heap t') par [Name cfg] = Inr ?a" by simp
  with w' have "walkTree (heap t') r (names @ [Name cfg]) = Inr ?a" by simp
  moreover have "list_all valid_name (names @ [Name cfg])" using names name by simp
  moreover have "root t' = Some r" using rt r by simp
  ultimately have "GetByPath t' (path_of (names @ [Name cfg])) = Inr ?a"
    by (simp add: GetByPath_path_of)
  moreover have "Get t' ident = Inr ?a"
    by (simp add: rp Get_def lookupResPool_def update_conv')
  ultimately show ?thesis using ha by simp
qed

lemma walkTree_cong_heap:
  assumes "\<forall>c. respool_Name (h' c) = respool_Name (h c) \<and> children (h' c) = children (h c)"
  shows "walkTree h' r names = walkTree h r names"
  using assms by (induction names arbitrary: r) (simp_all split: option.splits)

lemma Upsert_update_GetByPath:
  assumes up: "Upsert accepts t ident cfg = Inr t'"
    and old: "Get t ident = Inr n"
    and same: "Name cfg = respool_Name (heap t n)"
  shows "GetByPath t' path = GetByPath t path"
    and "Get t' ident = Inr n"
    and "poolConfig (heap t' n) = cfg"
proof -
  note u = Upsert_update[OF up old]
  have "\<forall>c. respool_Name (heap t' c) = respool_Name (heap t c) \<and>
            children (heap t' c) = children (heap t c)"
    using same by (simp add: u(1) respool_Name_def)
  then have "walkTree (heap t') r names = walkTree (heap t) r names" for r names
    by (rule walkTree_cong_heap)
  then show "GetByPath t' path = GetByPath t path"
    by (simp add: GetByPath_def u(4) split: option.splits)
  show "Get t' ident = Inr n"
    by (simp add: u(3) Get_def lookupResPool_def update_conv')
  show "poolConfig (heap t' n) = cfg"
    by (simp add: u(1))
qed

lemma GetByPath_root: "root t = Some r \<Longrightarrow> GetByPath t ResourcePoolPathDelimiter = Inr r"
  by (simp add: GetByPath_def)

lemma GetByPath_sound:
  assumes "GetByPath t path = Inr n" "path \<noteq> ResourcePoolPathDelimiter"
  shows "\<exists>r. root t = Some r \<and>
             reaches (heap t) r (Split (trimPath path) ResourcePoolPathDelimiter) n"
  using assms
  by (auto simp: GetByPath_def split: option.splits sum.splits intro: walkTree_reaches)

lemma GetByPath_not_found:
  assumes "root t = Some r" "path \<noteq> ResourcePoolPathDelimiter"
    and "\<forall>n. \<not> reaches (heap t) r (Split (trimPath path) ResourcePoolPathDelimiter) n"
  shows "\<exists>rest. GetByPath t path =
           Inl (ErrWrap (''unable to find resource pool with path:'' @ path)
                  (ErrPathNotFound rest))"
proof (cases "walkTree (heap t) r (Split (trimPath path) ResourcePoolPathDelimiter)")
  case (Inl e)
  then obtain rest where "e = ErrPathNotFound rest"
    using walkTree_error by blast
  with Inl assms(1,2) show ?thesis by (simp add: GetByPath_def)
next
  case (Inr n)
  then have "reaches (heap t) r (Split (trimPath path) ResourcePoolPathDelimiter) n"
    by (rule walkTree_reaches)
  with assms(3) show ?thesis by blast
qed

subsection \<open>Upsert and Delete keep the tree closed\<close>

lemma closed_iff:
  "closed_tree t \<longleftrightarrow>
     (\<forall>k n. (k, n) \<in> set (resPools t) \<longrightarrow> n < next_addr t) \<and>
     (\<forall>r. root t = Some r \<longrightarrow> r < next_addr t) \<and>
     (\<forall>n<next_addr t. \<forall>c\<in>set (children (heap t n)). c < next_addr t)"
  by (auto simp: closed_tree_def list_all_iff split: option.splits)

lemma set_update_subset: "set (AList.update k v al) \<subseteq> insert (k, v) (set al)"
  by (induction al) auto

lemma set_delete_subset: "set (AList.delete k al) \<subseteq> set al"
  by (induction al) auto

lemma set_fold_delete_subset:
  "set (fold (\<lambda>child pools. AList.delete (f child) pools) cs al) \<subseteq> set al"
proof (induction cs arbitrary: al)
  case Nil
  show ?case by simp
next
  case (Cons c cs)
  have "set (fold (\<lambda>child pools. AList.delete (f child) pools) cs (AList.delete (f c) al))
        \<subseteq> set (AList.delete (f c) al)"
    by (rule Cons.IH)
  also have "\<dots> \<subseteq> set al" by (rule set_delete_subset)
  finally show ?case by simp
qed

lemma closed_Upsert:
  assumes "closed_tree t" "Upsert accepts t ident cfg = Inr t'"
  shows "closed_tree t'"
proof (cases "Get t ident")
  case (Inr n)
  note u = Upsert_update[OF assms(2) Inr]
  from Inr have "(ident, n) \<in> set (resPools t)"
    by (auto simp: Get_def lookupResPool_def split: option.splits dest: map_of_SomeD)
  then have "set (resPools t') \<subseteq> set (resPools t)"
    using set_update_subset[of ident n "resPools t"] by (auto simp: u(3))
  moreover have "children (heap t' m) = children (heap t m)" for m
    by (simp add: u(1))
  ultimately show ?thesis
    using assms(1) unfolding closed_iff u(2) u(4) by (auto simp del: fun_upd_apply)
next
  case (Inl e)
  from assms(2) Inl assms(1) obtain parentID par where
    lt: "par < next_addr t" and
    ha: "heap t' (next_addr t) =
       \<lparr>ID = ident, parent = Some par, children = [], poolConfig = cfg, demand_queue = []\<rparr>" and
    hp: "heap t' par = (heap t par)\<lparr>children := children (heap t par) @ [next_addr t]\<rparr>" and
    ho: "\<forall>n. n \<noteq> par \<and> n \<noteq> next_addr t \<longrightarrow> heap t' n = heap t n" and
    nx: "next_addr t' = Suc (next_addr t)" and
    rp: "resPools t' = AList.update ident (next_addr t) (resPools t)" and
    rt: "root t' = root t"
    by (rule Upsert_create_heap)
  have idx: "n < Suc (next_addr t)" if "(k, n) \<in> set (resPools t')" for k n
  proof -
    from that have "(k, n) \<in> insert (ident, next_addr t) (set (resPools t))"
      using set_update_subset[of ident "next_addr t" "resPools t"] by (auto simp: rp)
    then show ?thesis using assms(1) by (auto simp: closed_iff less_Suc_eq)
  qed
  have ch: "c < Suc (next_addr t)"
    if "n < Suc (next_addr t)" "c \<in> set (children (heap t' n))" for n c
  proof (cases "n = next_addr t")
    case True
    with that ha show ?thesis by simp
  next
    case False
    with that(1) have n: "n < next_addr t" by simp
    show ?thesis
    proof (cases "n = par")
      case True
      with that(2) hp have "c \<in> set (children (heap t par)) \<or> c = next_addr t" by auto
      with assms(1) lt show ?thesis by (auto simp: closed_iff less_Suc_eq)
    next
      case False
      with ho n that(2) have "c \<in> set (children (heap t n))" by simp
      with assms(1) n show ?thesis by (auto simp: closed_iff less_Suc_eq)
    qed
  qed
  have "\<forall>r. root t' = Some r \<longrightarrow> r < Suc (next_addr t)"
    using assms(1) by (auto simp: rt closed_iff less_Suc_eq)
  with idx ch show ?thesis
    unfolding closed_iff nx by blast
qed

lemma closed_Delete:
  assumes "closed_tree t" "Delete t respoolID = Inr t'"
  shows "closed_tree t'"
proof -
  from assms(2) obtain n par where
    h: "heap t' = (heap t)
       (par := (heap t par)
          \<lparr>children := filter (\<lambda>child. ID (heap t child) \<noteq> respoolID) (children (heap t par))\<rparr>)" and
    p: "resPools t' =
       AList.delete respoolID
         (fold (\<lambda>child pools. AList.delete (ID (heap t' child)) pools)
            (children (heap t' n)) (resPools t))" and
    r: "root t' = root t" "next_addr t' = next_addr t"
    by (rule Delete_InrE)
  have "set (resPools t') \<subseteq> set (resPools t)"
    unfolding p using set_delete_subset set_fold_delete_subset by (rule subset_trans)
  moreover have "set (children (heap t' m)) \<subseteq> set (children (heap t m))" for m
    by (auto simp: h)
  ultimately show ?thesis
    using assms(1) unfolding closed_iff r by blast
qed

lemmas path_eval =
  GetByPath_def trimPath_def TrimPrefix_def TrimSuffix_def ResourcePoolPathDelimiter_def
  Split_def respool_Name_def path_of_def valid_name_def

lemma tree_a_facts:
  "Get tree_a ''b'' = Inl (ErrNotFound ''b'')"
  "closed_tree tree_a"
  "Parent (pool_config ''b'' ''a'' []) = Some ''a''"
  "Get tree_a ''a'' = Inr 1"
  "GetByPath tree_a (path_of [''a'']) = Inr 1"
  "list_all valid_name [''a'']"
  "valid_name (Name (pool_config ''b'' ''a'' []))"
  "\<forall>c\<in>set (children (heap tree_a 1)).
      respool_Name (heap tree_a c) \<noteq> Name (pool_config ''b'' ''a'' [])"
  by (simp_all add: tree_eval path_eval closed_tree_def upt_rec)

lemma tree_ab_facts:
  "Upsert accept_all tree_ab ''b'' (pool_config ''b'' ''a'' ''resized'') =
     Inr (projr (Upsert accept_all tree_ab ''b'' (pool_config ''b'' ''a'' ''resized'')))"
  "Get tree_ab ''b'' = Inr 2"
  "Name (pool_config ''b'' ''a'' ''resized'') = respool_Name (heap tree_ab 2)"
  "root tree_ab = Some 0"
  "path_of [''a'', ''b''] = ''/a/b''"
  "''/a/b'' \<noteq> ResourcePoolPathDelimiter"
  "''/zz'' \<noteq> ResourcePoolPathDelimiter"
  "Split (trimPath ''/a/b'') ResourcePoolPathDelimiter = [''a'', ''b'']"
  "\<forall>n. \<not> reaches (heap tree_ab) 0 (Split (trimPath ''/zz'') ResourcePoolPathDelimiter) n"
  by (simp_all add: tree_eval path_eval)

text \<open>
  C7, as stated: after a successful \<open>Upsert(id, cfg)\<close>, \<open>GetByPath\<close> on the path
  of that node returns the node holding \<open>cfg\<close>. In \<open>root \<rightarrow> a\<close>, a second pool
  \<open>a2\<close> with the name \<open>a\<close> is created under the root; its path is \<open>/a\<close>, and
  \<open>GetByPath\<close> of \<open>/a\<close> returns the first child with that name, the node
  \<open>a\<close> with another configuration.
\<close>

theorem GetByPath_same_name_counterexample:
  "\<not> isl (Upsert accept_all tree_a ''a2'' (pool_config ''a'' ''root'' ''second'')) \<and>
   Get (projr (Upsert accept_all tree_a ''a2'' (pool_config ''a'' ''root'' ''second''))) ''a2'' =
     Inr 2 \<and>
   poolConfig
     (heap (projr (Upsert accept_all tree_a ''a2'' (pool_config ''a'' ''root'' ''second''))) 2) =
     pool_config ''a'' ''root'' ''second'' \<and>
   path_of [''a''] = ''/a'' \<and>
   GetByPath (projr (Upsert accept_all tree_a ''a2'' (pool_config ''a'' ''root'' ''second'')))
     ''/a'' = Inr 1 \<and>
   ID (heap (projr (Upsert accept_all tree_a ''a2'' (pool_config ''a'' ''root'' ''second''))) 1) =
     ''a'' \<and>
   poolConfig
     (heap (projr (Upsert accept_all tree_a ''a2'' (pool_config ''a'' ''root'' ''second''))) 1) \<noteq>
     pool_config ''a'' ''root'' ''second''"
  by (simp add: tree_eval GetByPath_def trimPath_def TrimPrefix_def TrimSuffix_def
      ResourcePoolPathDelimiter_def Split_def respool_Name_def path_of_def)

text \<open>
  C7, amended. (1) After a successful \<open>Upsert(id, cfg)\<close> that creates a node, in a
  tree whose pointers are all allocated, when \<open>GetByPath\<close> resolves the path with
  the segments \<open>names\<close> to the parent that \<open>cfg\<close> names, the segments and the name
  in \<open>cfg\<close> are not empty and have no delimiter, and no child of the parent has
  that name yet: \<open>GetByPath\<close> of the path extended by the name returns the new node,
  which holds \<open>cfg\<close>. (2) After a successful \<open>Upsert(id, cfg)\<close> of an existing
  node that keeps its name, a path that \<open>GetByPath\<close> resolved to the node still
  resolves to it, and the node holds \<open>cfg\<close>. (3) \<open>GetByPath\<close> of the bare
  delimiter returns the root of an initialised tree. (4) A node that \<open>GetByPath\<close>
  returns for another path is reached from the root through children named by the
  segments of the path, and (5) when no node is reached so, \<open>GetByPath\<close> fails with
  the not-found error of \<open>walkTree\<close>.
\<close>

theorem Upsert_GetByPath_roundtrip:
  "(Upsert accepts t ident cfg = Inr t' \<and> Get t ident = Inl e \<and> closed_tree t \<and>
    Parent cfg = Some parentID \<and> Get t parentID = Inr par \<and>
    GetByPath t (path_of names) = Inr par \<and>
    list_all valid_name names \<and> valid_name (Name cfg) \<and>
    (\<forall>c\<in>set (children (heap t par)). respool_Name (heap t c) \<noteq> Name cfg) \<longrightarrow>
      (\<exists>n. GetByPath t' (path_of (names @ [Name cfg])) = Inr n \<and> Get t' ident = Inr n \<and>
           ID (heap t' n) = ident \<and> poolConfig (heap t' n) = cfg)) \<and>
   (Upsert accepts t ident cfg = Inr t' \<and> Get t ident = Inr n \<and>
    Name cfg = respool_Name (heap t n) \<and> GetByPath t path = Inr n \<longrightarrow>
      GetByPath t' path = Inr n \<and> Get t' ident = Inr n \<and> poolConfig (heap t' n) = cfg) \<and>
   (root t = Some r \<longrightarrow> GetByPath t ResourcePoolPathDelimiter = Inr r) \<and>
   (GetByPath t path = Inr n \<and> path \<noteq> ResourcePoolPathDelimiter \<longrightarrow>
      (\<exists>r. root t = Some r \<and>
           reaches (heap t) r (Split (trimPath path) ResourcePoolPathDelimiter) n)) \<and>
   (root t = Some r \<and> path \<noteq> ResourcePoolPathDelimiter \<and>
    (\<forall>n. \<not> reaches (heap t) r (Split (trimPath path) ResourcePoolPathDelimiter) n) \<longrightarrow>
      (\<exists>rest. GetByPath t path =
         Inl (ErrWrap (''unable to find resource pool with path:'' @ path)
                (ErrPathNotFound rest))))"
proof (intro conjI impI)
  assume "Upsert accepts t ident cfg = Inr t' \<and> Get t ident = Inl e \<and> closed_tree t \<and>
    Parent cfg = Some parentID \<and> Get t parentID = Inr par \<and>
    GetByPath t (path_of names) = Inr par \<and>
    list_all valid_name names \<and> valid_name (Name cfg) \<and>
    (\<forall>c\<in>set (children (heap t par)). respool_Name (heap t c) \<noteq> Name cfg)"
  then have "GetByPath t' (path_of (names @ [Name cfg])) = Inr (next_addr t) \<and>
         Get t' ident = Inr (next_addr t) \<and>
         ID (heap t' (next_addr t)) = ident \<and>
         poolConfig (heap t' (next_addr t)) = cfg"
    by (elim conjE) (rule Upsert_create_GetByPath)
  then show "\<exists>n. GetByPath t' (path_of (names @ [Name cfg])) = Inr n \<and> Get t' ident = Inr n \<and>
           ID (heap t' n) = ident \<and> poolConfig (heap t' n) = cfg"
    by blast
next
  assume a: "Upsert accepts t ident cfg = Inr t' \<and> Get t ident = Inr n \<and>
    Name cfg = respool_Name (heap t n) \<and> GetByPath t path = Inr n"
  then have u: "Upsert accepts t ident cfg = Inr t'" "Get t ident = Inr n"
    "Name cfg = respool_Name (heap t n)"
    by simp_all
  from a Upsert_update_GetByPath(1)[OF u] show "GetByPath t' path = Inr n" by simp
  show "Get t' ident = Inr n" by (rule Upsert_update_GetByPath(2)[OF u])
  show "poolConfig (heap t' n) = cfg" by (rule Upsert_update_GetByPath(3)[OF u])
next
  assume "root t = Some r"
  then show "GetByPath t ResourcePoolPathDelimiter = Inr r" by (rule GetByPath_root)
next
  assume "GetByPath t path = Inr n \<and> path \<noteq> ResourcePoolPathDelimiter"
  then show "\<exists>r. root t = Some r \<and>
           reaches (heap t) r (Split (trimPath path) ResourcePoolPathDelimiter) n"
    by (elim conjE) (rule GetByPath_sound)
next
  assume "root t = Some r \<and> path \<noteq> ResourcePoolPathDelimiter \<and>
    (\<forall>n. \<not> reaches (heap t) r (Split (trimPath path) ResourcePoolPathDelimiter) n)"
  then show "\<exists>rest. GetByPath t path =
         Inl (ErrWrap (''unable to find resource pool with path:'' @ path)
                (ErrPathNotFound rest))"
    by (elim conjE) (rule GetByPath_not_found)
qed

theorem Upsert_GetByPath_roundtrip_witness:
  "GetByPath tree_ab ''/a/b'' = Inr 2 \<and>
   poolConfig (heap tree_ab 2) = pool_config ''b'' ''a'' [] \<and>
   GetByPath (projr (Upsert accept_all tree_ab ''b'' (pool_config ''b'' ''a'' ''resized'')))
     ''/a/b'' = Inr 2 \<and>
   poolConfig
     (heap (projr (Upsert accept_all tree_ab ''b'' (pool_config ''b'' ''a'' ''resized''))) 2) =
     pool_config ''b'' ''a'' ''resized'' \<and>
   GetByPath tree_ab ''/'' = Inr 0 \<and>
   reaches (heap tree_ab) 0 [''a'', ''b''] 2 \<and>
   (\<exists>rest. GetByPath tree_ab ''/zz'' =
      Inl (ErrWrap ''unable to find resource pool with path:/zz'' (ErrPathNotFound rest)))"
proof -
  let ?u = "projr (Upsert accept_all tree_ab ''b'' (pool_config ''b'' ''a'' ''resized''))"
  have "\<exists>n. GetByPath tree_ab (path_of ([''a''] @ [Name (pool_config ''b'' ''a'' [])])) = Inr n \<and>
            Get tree_ab ''b'' = Inr n \<and> ID (heap tree_ab n) = ''b'' \<and>
            poolConfig (heap tree_ab n) = pool_config ''b'' ''a'' []"
    using Upsert_GetByPath_roundtrip
      [where accepts = accept_all and t = tree_a and ident = "''b''"
         and cfg = "pool_config ''b'' ''a'' []" and t' = tree_ab
         and e = "ErrNotFound ''b''" and parentID = "''a''" and par = 1 and names = "[''a'']",
       THEN conjunct1]
      tree_ab_reached tree_a_facts
    by blast
  then have c1: "GetByPath tree_ab ''/a/b'' = Inr 2 \<and>
                 poolConfig (heap tree_ab 2) = pool_config ''b'' ''a'' []"
    using tree_ab_facts(2,5) by (auto simp: pool_config_def)
  have c2: "GetByPath ?u ''/a/b'' = Inr 2 \<and>
            poolConfig (heap ?u 2) = pool_config ''b'' ''a'' ''resized''"
    using Upsert_GetByPath_roundtrip
      [where accepts = accept_all and t = tree_ab and ident = "''b''"
         and cfg = "pool_config ''b'' ''a'' ''resized''" and t' = ?u
         and n = 2 and path = "''/a/b''",
       THEN conjunct2, THEN conjunct1]
      tree_ab_facts(1,2,3) c1
    by blast
  have c3: "GetByPath tree_ab ''/'' = Inr 0"
    using Upsert_GetByPath_roundtrip
      [where t = tree_ab and r = 0, THEN conjunct2, THEN conjunct2, THEN conjunct1]
      tree_ab_facts(4)
    by (simp add: ResourcePoolPathDelimiter_def)
  have "\<exists>r. root tree_ab = Some r \<and>
            reaches (heap tree_ab) r (Split (trimPath ''/a/b'') ResourcePoolPathDelimiter) 2"
    using Upsert_GetByPath_roundtrip
      [where t = tree_ab and path = "''/a/b''" and n = 2,
       THEN conjunct2, THEN conjunct2, THEN conjunct2, THEN conjunct1]
      c1 tree_ab_facts(6)
    by blast
  then have c4: "reaches (heap tree_ab) 0 [''a'', ''b''] 2"
    using tree_ab_facts(4,8) by simp
  have c5: "\<exists>rest. GetByPath tree_ab ''/zz'' =
      Inl (ErrWrap ''unable to find resource pool with path:/zz'' (ErrPathNotFound rest))"
    using Upsert_GetByPath_roundtrip
      [where t = tree_ab and path = "''/zz''" and r = 0,
       THEN conjunct2, THEN conjunct2, THEN conjunct2, THEN conjunct2]
      tree_ab_facts(4,7,9)
    by simp
  from c1 c2 c3 c4 c5 show ?thesis by blast
qed

end
